theory Spec2Isabelle
  imports Complex_Main "HOL-Library.List_Lexorder" "HOL-Library.Char_ord"
    "HOL-Library.Product_Lexorder" "HOL-Library.Log_Nat"
begin

section \<open>Time-clock shift reconstruction: the engine of services/timesheetService.ts\<close>

subsection \<open>Dates\<close>

text \<open>
  A valid JavaScript \<^verbatim>\<open>Date\<close> is modelled by the number of milliseconds of local
  wall-clock time since 1970-01-01 00:00:00.000 of the local calendar: the local zone is
  taken to have a fixed offset (no daylight-saving jumps), so that the local accessors are
  arithmetic on that number and \<^verbatim>\<open>a.getTime() - b.getTime()\<close> is the difference of the
  two numbers. A \<^verbatim>\<open>Date\<close> object may also be the invalid date, whose time value is
  \<^verbatim>\<open>NaN\<close>: \<open>jsDate\<close> below. The normalisation is modelled on \<open>jsDate\<close>; the
  consolidators are modelled on punches whose times are valid.
\<close>

type_synonym Date = int

definition msPerDay :: int where
  "msPerDay = 86400000"

definition getHours :: "Date \<Rightarrow> int" where
  "getHours d = (d div 3600000) mod 24"

definition getMinutes :: "Date \<Rightarrow> int" where
  "getMinutes d = (d div 60000) mod 60"

definition getSeconds :: "Date \<Rightarrow> int" where
  "getSeconds d = (d div 1000) mod 60"

text \<open>The calendar day a date falls on (days since 1970-01-01) and the time within it.\<close>

definition dayNumber :: "Date \<Rightarrow> int" where
  "dayNumber d = d div msPerDay"

definition msOfDay :: "Date \<Rightarrow> int" where
  "msOfDay d = d mod msPerDay"

text \<open>
  \<^verbatim>\<open>getFullYear\<close>: the year of the proleptic Gregorian calendar that holds the day,
  computed from the day number by the usual era/day-of-era decomposition (eras of 400
  years = 146097 days, counted from 0000-03-01).
\<close>

definition getFullYear :: "Date \<Rightarrow> int" where
  "getFullYear d =
     (let z = dayNumber d + 719468;
          era = z div 146097;
          doe = z - era * 146097;
          yoe = (doe - doe div 1460 + doe div 36524 - doe div 146096) div 365;
          doy = doe - (365 * yoe + yoe div 4 - yoe div 100);
          mp = (5 * doy + 2) div 153
      in yoe + era * 400 + (if mp < 10 then 0 else 1))"

text \<open>
  \<^verbatim>\<open>setDateTime(baseDate, hours, minutes)\<close> copies the date and calls
  \<^verbatim>\<open>setHours(hours, minutes, 0, 0)\<close>: same calendar day, the given time of day.
\<close>

definition setDateTime :: "Date \<Rightarrow> int \<Rightarrow> int \<Rightarrow> Date" where
  "setDateTime baseDate hours minutes =
     dayNumber baseDate * msPerDay + hours * 3600000 + minutes * 60000"

text \<open>\<^verbatim>\<open>d.setDate(d.getDate() + n)\<close>: the same time of day, n calendar days later.\<close>

definition addDays :: "Date \<Rightarrow> int \<Rightarrow> Date" where
  "addDays d n = d + n * msPerDay"

text \<open>
  A \<^verbatim>\<open>Date\<close> object as the host can hand it over. On the invalid date every accessor
  (\<^verbatim>\<open>getTime\<close>, \<^verbatim>\<open>getHours\<close>, \<^verbatim>\<open>getFullYear\<close>, ...) returns \<^verbatim>\<open>NaN\<close>, here \<open>None\<close>;
  a comparison (\<^verbatim>\<open>===\<close>, \<^verbatim>\<open><\<close>, \<^verbatim>\<open>>\<close>) with a \<^verbatim>\<open>NaN\<close> operand is false.
\<close>

datatype jsDate = ValidDate Date | InvalidDate

definition dateField :: "(Date \<Rightarrow> int) \<Rightarrow> jsDate \<Rightarrow> int option" where
  "dateField f d = (case d of ValidDate t \<Rightarrow> Some (f t) | InvalidDate \<Rightarrow> None)"

definition getTime :: "jsDate \<Rightarrow> int option" where
  "getTime d = dateField (\<lambda>t. t) d"

definition isNaN :: "int option \<Rightarrow> bool" where
  "isNaN x = (x = None)"

subsection \<open>Numbers\<close>

text \<open>
  JavaScript numbers are IEEE 754 doubles. Times in milliseconds and their differences
  are whole numbers far below \<open>2 ^ 53\<close>, which doubles hold exactly: they are integers
  here. The quotients that the source only compares with a bound or publishes as they are
  (the hours of the segmentation, the minutes of a gap, the hours of a short shift) are
  exact rationals. Where a result of the source depends on how a double is rounded (the
  break that the daily-worker mode subtracts, the seconds that \<^verbatim>\<open>formatDuration\<close>
  renders, the hours with two decimals), the rounding is made explicit: \<open>fl x\<close> is the
  double nearest to the rational \<open>x\<close>, ties going to the even mantissa. The mantissa has
  53 bits, so for \<open>2 ^ e \<le> \<bar>x\<bar> < 2 ^ (e + 1)\<close> the doubles around \<open>x\<close> are the
  multiples of \<open>2 ^ (e - 52)\<close>. Overflow and subnormal numbers, which need magnitudes
  beyond \<open>10 ^ 308\<close> or below \<open>10 ^ -307\<close>, are not modelled.
\<close>

definition roundHalfEven :: "rat \<Rightarrow> int" where
  "roundHalfEven q =
     (let f = \<lfloor>q\<rfloor>; r = q - of_int f
      in if r < 1 / 2 then f else if 1 / 2 < r then f + 1 else if even f then f else f + 1)"

definition pow2 :: "int \<Rightarrow> rat" where
  "pow2 k = (if 0 \<le> k then 2 ^ nat k else 1 / 2 ^ nat (- k))"

text \<open>The exponent \<open>e\<close> with \<open>2 ^ e \<le> \<bar>x\<bar> < 2 ^ (e + 1)\<close>, for \<open>x \<noteq> 0\<close>.\<close>

definition binade :: "rat \<Rightarrow> int" where
  "binade x =
     (let k = bitlen (fst (quotient_of \<bar>x\<bar>)) - bitlen (snd (quotient_of \<bar>x\<bar>))
      in if pow2 k \<le> \<bar>x\<bar> then k else k - 1)"

definition fl :: "rat \<Rightarrow> rat" where
  "fl x = (if x = 0 then 0
           else (let ulp = pow2 (binade x - 52) in of_int (roundHalfEven (x / ulp)) * ulp))"

subsection \<open>The meal window\<close>

definition getLunchWindow :: "Date \<Rightarrow> Date \<times> Date" where
  "getLunchWindow shiftStart =
     (let startHour = getHours shiftStart in
      if startHour \<ge> 5 \<and> startHour < 13 then
        (setDateTime shiftStart 10 30, setDateTime shiftStart 14 30)
      else if startHour \<ge> 13 \<and> startHour < 18 then
        (setDateTime shiftStart 17 30, setDateTime shiftStart 20 0)
      else
        (let refDate = (if startHour \<ge> 18 then addDays shiftStart 1 else shiftStart)
         in (setDateTime refDate 0 30, setDateTime refDate 3 0)))"

subsection \<open>Configuration and results\<close>

text \<open>
  Modelled from the spec: the declarations of \<^verbatim>\<open>types.ts\<close> (ProcessingConfig, RawRecord,
  ProcessedShift, DailyWorkerRecord) are not among the sources; the records below have the
  fields that the service reads and writes. The threshold and the minute bounds are
  JavaScript numbers, here rationals.
\<close>

record ProcessingConfig =
  shiftThresholdHours :: rat
  lunchMinDuration :: rat
  lunchMaxDuration :: rat
  defaultLunchDuration :: rat

definition DEFAULT_CONFIG :: ProcessingConfig where
  "DEFAULT_CONFIG = \<lparr>shiftThresholdHours = 8, lunchMinDuration = 45,
     lunchMaxDuration = 75, defaultLunchDuration = 60\<rparr>"

datatype LunchType = NONE | NORMAL | ARTIFICIAL

text \<open>
  A processed shift. \<open>workedMs\<close> is the local variable of that name in
  \<^verbatim>\<open>calculateSingleShift\<close> (in the early return: \<^verbatim>\<open>shiftDurationMs\<close>), from which the
  two published renderings \<open>workedHours\<close> and \<open>workedTimeStr\<close> are computed; it is kept
  as a field so that statements about the worked time can be made in milliseconds. The
  fields \<^verbatim>\<open>id\<close> and \<^verbatim>\<open>date\<close>, string renderings of the person and the start, are left out.
\<close>

record ProcessedShift =
  person :: string
  startTime :: Date
  endTime :: Date
  lunchStart :: "Date option"
  lunchEnd :: "Date option"
  workedMs :: int
  workedHours :: rat
  workedTimeStr :: string
  lunchType :: LunchType
  warnings :: "string list"

text \<open>A gap between two consecutive punches, as the object literal of the source.\<close>

record Gap =
  gapStart :: Date
  gapEnd :: Date
  durationMinutes :: rat

text \<open>
  The only exception the engine can raise by itself: a property read on
  \<^verbatim>\<open>undefined\<close>, when \<^verbatim>\<open>calculateSingleShift\<close> is given no punch.
\<close>

datatype error = TypeError

subsection \<open>Formatting\<close>

text \<open>\<^verbatim>\<open>n.toString()\<close> of a natural number, and \<^verbatim>\<open>padStart(2, '0')\<close>.\<close>

fun digitsOf :: "nat \<Rightarrow> string" where
  "digitsOf n =
     (if n < 10 then [char_of (48 + n)]
      else digitsOf (n div 10) @ [char_of (48 + n mod 10)])"

declare digitsOf.simps [simp del]

definition pad :: "int \<Rightarrow> string" where
  "pad n = (let s = digitsOf (nat n) in if length s < 2 then replicate (2 - length s) (CHR ''0'') @ s else s)"

definition formatDuration :: "rat \<Rightarrow> string" where
  "formatDuration ms0 =
     (let ms = (if ms0 < 0 then 0 else ms0);
          totalSeconds = \<lfloor>fl (ms / 1000)\<rfloor>;
          h = totalSeconds div 3600;
          m = (totalSeconds mod 3600) div 60;
          s = totalSeconds mod 60
      in pad h @ '':'' @ pad m @ '':'' @ pad s)"

text \<open>
  \<^verbatim>\<open>parseFloat(x.toFixed(2))\<close> for a double \<open>x \<ge> 0\<close>: \<^verbatim>\<open>toFixed(2)\<close> prints \<open>n / 100\<close>
  for the integer \<open>n\<close> that makes \<open>n / 100 - x\<close> closest to zero (the larger of two such),
  and \<^verbatim>\<open>parseFloat\<close> reads that decimal as the nearest double.
\<close>

definition toFixed2 :: "rat \<Rightarrow> rat" where
  "toFixed2 x = fl (of_int \<lfloor>x * 100 + 1 / 2\<rfloor> / 100)"

subsection \<open>One shift: break detection and synthesis\<close>

text \<open>The loop of \<^verbatim>\<open>calculateSingleShift\<close> (and of \<^verbatim>\<open>finalizeShift\<close>) that collects the gaps.\<close>

fun gapsOf :: "Date list \<Rightarrow> Gap list" where
  "gapsOf (gStart # gEnd # rest) =
     \<lparr>gapStart = gStart, gapEnd = gEnd,
      durationMinutes = of_int (gEnd - gStart) / (1000 * 60)\<rparr> # gapsOf (gEnd # rest)"
| "gapsOf _ = []"

definition validGapsOf :: "ProcessingConfig \<Rightarrow> Gap list \<Rightarrow> Gap list" where
  "validGapsOf config gaps =
     filter (\<lambda>g. durationMinutes g \<ge> lunchMinDuration config
                 \<and> durationMinutes g \<le> lunchMaxDuration config) gaps"

definition insideWindowOf :: "Date \<times> Date \<Rightarrow> Gap list \<Rightarrow> Gap list" where
  "insideWindowOf window validGaps =
     filter (\<lambda>g. gapStart g \<ge> fst window \<and> gapEnd g \<le> snd window) validGaps"

text \<open>
  The distance the fallback sorts by. \<^verbatim>\<open>Array.prototype.sort\<close> is stable and the
  comparator is the difference of the two distances, so \<^verbatim>\<open>sort(...)[0]\<close> is the first
  element of a stable sort by the distance.
\<close>

definition midDistance :: "Date \<times> Date \<Rightarrow> Gap \<Rightarrow> rat" where
  "midDistance window g =
     (let windowMid = of_int (fst window + snd window) / 2;
          midG = of_int (gapStart g) + (durationMinutes g * 60 * 1000 / 2)
      in \<bar>midG - windowMid\<bar>)"

definition standardLunchOf :: "Date \<times> Date \<Rightarrow> Gap list \<Rightarrow> Gap option" where
  "standardLunchOf window validGaps =
     (if length validGaps = 1 then Some (validGaps ! 0)
      else if length validGaps > 1 then
        (let insideWindow = insideWindowOf window validGaps in
         if length insideWindow > 0 then Some (insideWindow ! 0)
         else Some (sort_key (midDistance window) validGaps ! 0))
      else None)"

text \<open>
  The final part of \<^verbatim>\<open>calculateSingleShift\<close>: the worked time from the resolved break
  (the test \<^verbatim>\<open>lunchStart && lunchEnd\<close> holds exactly when both are set) and the record.
\<close>

definition finishShift ::
  "string \<Rightarrow> Date \<Rightarrow> Date \<Rightarrow> Date option \<Rightarrow> Date option \<Rightarrow> LunchType \<Rightarrow> ProcessedShift" where
  "finishShift p start end' lStart lEnd lType =
     (let workedMs0 =
            (case (lStart, lEnd) of
               (Some ls, Some le) \<Rightarrow> (ls - start) + (end' - le)
             | _ \<Rightarrow> end' - start);
          workedMs1 = (if workedMs0 < 0 then 0 else workedMs0)
      in \<lparr>person = p, startTime = start, endTime = end',
          lunchStart = lStart, lunchEnd = lEnd,
          workedMs = workedMs1,
          workedHours = toFixed2 (fl (of_int workedMs1 / (1000 * 60 * 60))),
          workedTimeStr = formatDuration (of_int workedMs1),
          lunchType = lType, warnings = []\<rparr>)"

text \<open>
  The synthesis. \<open>random\<close> is the sequence of values that \<^verbatim>\<open>Math.random()\<close> returns
  (each in [0,1)), and the natural number beside it counts the calls made so far; every
  function that may draw returns the new count.
\<close>

definition artificialMsOf :: "rat \<Rightarrow> int" where
  "artificialMsOf r = (60 + \<lfloor>r * 6\<rfloor>) * 60 * 1000"

definition validPeriodOf :: "Date \<Rightarrow> Date \<Rightarrow> Date \<times> Date \<Rightarrow> Date \<times> Date" where
  "validPeriodOf start end' window =
     (let safeShiftStart = start + 15 * 60000;
          safeShiftEnd = end' - 15 * 60000
      in (max safeShiftStart (fst window), min safeShiftEnd (snd window)))"

definition artificialLunch ::
  "string \<Rightarrow> Date \<Rightarrow> Date \<Rightarrow> Date \<times> Date \<Rightarrow> (nat \<Rightarrow> rat) \<Rightarrow> nat \<Rightarrow> ProcessedShift \<times> nat" where
  "artificialLunch p start end' window random n =
     (let artificialMs = artificialMsOf (random n);
          (validPeriodStart, validPeriodEnd) = validPeriodOf start end' window;
          availableTime = validPeriodEnd - validPeriodStart
      in if availableTime \<ge> artificialMs then
           (let maxOffset = availableTime - artificialMs;
                randomOffset = \<lfloor>random (n + 1) * of_int maxOffset\<rfloor>;
                lStart = validPeriodStart + randomOffset;
                lEnd = lStart + artificialMs
            in (finishShift p start end' (Some lStart) (Some lEnd) ARTIFICIAL, n + 2))
         else (finishShift p start end' None None NONE, n + 1))"

definition shortShift :: "string \<Rightarrow> Date \<Rightarrow> Date \<Rightarrow> ProcessedShift" where
  "shortShift p start end' =
     (let shiftDurationMs = end' - start
      in \<lparr>person = p, startTime = start, endTime = end',
          lunchStart = None, lunchEnd = None,
          workedMs = shiftDurationMs,
          workedHours = of_int shiftDurationMs / (1000 * 60 * 60),
          workedTimeStr = formatDuration (of_int shiftDurationMs),
          lunchType = NONE,
          warnings = [''Turno com registro '' @ [CHR 0xFA] @ ''nico ou muito curto'']\<rparr>)"

definition calculateSingleShift ::
  "string \<Rightarrow> Date list \<Rightarrow> ProcessingConfig \<Rightarrow> (nat \<Rightarrow> rat) \<Rightarrow> nat
     \<Rightarrow> error + (ProcessedShift \<times> nat)" where
  "calculateSingleShift p punches config random n =
     (if punches = [] then Inl TypeError
      else
        (let start = punches ! 0;
             end' = punches ! (length punches - 1);
             shiftDurationMs = end' - start
         in if length punches < 2 \<or> shiftDurationMs < 1000 * 60 * 60 then
              Inr (shortShift p start end', n)
            else
              (let gaps = gapsOf punches;
                   window = getLunchWindow start;
                   validGaps = validGapsOf config gaps
               in case standardLunchOf window validGaps of
                    Some standardLunch \<Rightarrow>
                      Inr (finishShift p start end' (Some (gapStart standardLunch))
                             (Some (gapEnd standardLunch)) NORMAL, n)
                  | None \<Rightarrow> Inr (artificialLunch p start end' window random n))))"

subsection \<open>Normalisation: from rows to punches\<close>

text \<open>
  A decoded row is the list of its (header, cell) entries in the order of
  \<^verbatim>\<open>Object.keys\<close>; headers of one row are distinct. Strings are lists of 8-bit code
  units, and \<^verbatim>\<open>toLowerCase\<close> acts on the letters A to Z. The type of a cell has as
  parameter what a Date cell holds: \<open>jsDate\<close> in a table as the decoder hands it over,
  \<open>Date\<close> in a table whose Date cells are all valid.
\<close>

datatype 'd cell = CDate 'd | CString string | CNumber rat | CBool bool

type_synonym 'd row = "(string \<times> 'd cell) list"

text \<open>
  A punch record. The parameter is the type of its time: \<open>jsDate\<close> as
  \<^verbatim>\<open>parseRawData\<close> builds it, \<open>Date\<close> where the time is known to be valid.
\<close>

record 'd RawRecord =
  Pessoa :: string
  DataHora :: 'd
  Grupo :: string
  OriginalRow :: "jsDate row"

definition toLowerCase :: "string \<Rightarrow> string" where
  "toLowerCase s =
     map (\<lambda>c. if CHR ''A'' \<le> c \<and> c \<le> CHR ''Z'' then char_of (of_char c + (32 :: nat)) else c) s"

fun includesStr :: "string \<Rightarrow> string \<Rightarrow> bool" where
  "includesStr [] sub = (sub = [])"
| "includesStr (c # cs) sub = (take (length sub) (c # cs) = sub \<or> includesStr cs sub)"

definition isSpace :: "char \<Rightarrow> bool" where
  "isSpace c = (c \<in> set [CHR 0x09, CHR 0x0A, CHR 0x0B, CHR 0x0C, CHR 0x0D, CHR 0x20, CHR 0xA0])"

definition trim :: "string \<Rightarrow> string" where
  "trim s = rev (dropWhile isSpace (rev (dropWhile isSpace s)))"

text \<open>
  \<^verbatim>\<open>String(v)\<close>: a string is itself; how the host prints a date, a number or a boolean
  is a parameter \<open>render\<close>.
\<close>

definition jsString :: "(jsDate cell \<Rightarrow> string) \<Rightarrow> jsDate cell \<Rightarrow> string" where
  "jsString render v = (case v of CString s \<Rightarrow> s | _ \<Rightarrow> render v)"

definition isPersonHeader :: "string \<Rightarrow> bool" where
  "isPersonHeader k =
     (let header = toLowerCase k
      in includesStr header ''pessoa'' \<or> includesStr header ''nome''
         \<or> includesStr header ''funcionario'' \<or> includesStr header ''empregado'')"

definition isGroupHeader :: "string \<Rightarrow> bool" where
  "isGroupHeader k =
     (includesStr (toLowerCase k) ''grupo'' \<or> includesStr (toLowerCase k) ''depto'')"

definition isSummaryHeader :: "string \<Rightarrow> bool" where
  "isSummaryHeader key =
     (let headerLower = toLowerCase key
      in includesStr headerLower ''total'' \<or> includesStr headerLower ''saldo''
         \<or> includesStr headerLower ''banco'' \<or> includesStr headerLower ''horas''
         \<or> includesStr headerLower ''hrs'' \<or> includesStr headerLower ''trab''
         \<or> includesStr headerLower ''obs'')"

text \<open>
  The candidate date of a cell. A cell that is a \<^verbatim>\<open>Date\<close> object is taken as it is,
  valid or not: the branch \<^verbatim>\<open>val instanceof Date\<close> makes no further test. A string longer
  than 8 is handed to the host's \<^verbatim>\<open>new Date(val)\<close>, the parameter \<open>parseDate\<close>, and the
  result is taken if its time is not \<^verbatim>\<open>NaN\<close>. Anything else is no candidate.
\<close>

definition candidateDate :: "(string \<Rightarrow> jsDate) \<Rightarrow> jsDate cell \<Rightarrow> jsDate option" where
  "candidateDate parseDate val =
     (case val of
        CDate d \<Rightarrow> Some d
      | CString str \<Rightarrow>
          (if length str > 8 then
             (let parsed = parseDate str
              in if \<not> isNaN (getTime parsed) then Some parsed else None)
           else None)
      | _ \<Rightarrow> None)"

text \<open>
  The two filters. On the invalid date the accessors return \<^verbatim>\<open>NaN\<close>, and both
  \<^verbatim>\<open>NaN === 0\<close> and \<^verbatim>\<open>NaN < 2020\<close> are false.
\<close>

definition isMidnight :: "jsDate \<Rightarrow> bool" where
  "isMidnight dateVal =
     (dateField getHours dateVal = Some 0 \<and> dateField getMinutes dateVal = Some 0
      \<and> dateField getSeconds dateVal = Some 0)"

definition isInvalidYear :: "jsDate \<Rightarrow> bool" where
  "isInvalidYear dateVal =
     (case dateField getFullYear dateVal of Some year \<Rightarrow> year < 2020 | None \<Rightarrow> False)"

text \<open>
  The records that one cell of a row adds (the body of \<^verbatim>\<open>keys.forEach\<close>). The test
  \<^verbatim>\<open>if (dateVal)\<close> holds for every \<^verbatim>\<open>Date\<close> object.
\<close>

definition cellRecords ::
  "(string \<Rightarrow> jsDate) \<Rightarrow> jsDate row \<Rightarrow> string \<Rightarrow> string option \<Rightarrow> string \<Rightarrow> string
     \<Rightarrow> string \<times> jsDate cell \<Rightarrow> jsDate RawRecord list" where
  "cellRecords parseDate r personKey groupKey personName groupName entry =
     (let key = fst entry; val = snd entry in
      if key = personKey \<or> Some key = groupKey then []
      else if isSummaryHeader key then []
      else
        (case candidateDate parseDate val of
           None \<Rightarrow> []
         | Some dateVal \<Rightarrow>
             if \<not> isMidnight dateVal \<and> \<not> isInvalidYear dateVal then
               [\<lparr>Pessoa = personName, DataHora = dateVal, Grupo = groupName, OriginalRow = r\<rparr>]
             else []))"

text \<open>The records that one row adds (the body of \<^verbatim>\<open>jsonData.forEach\<close>).\<close>

definition rowRecords ::
  "(jsDate cell \<Rightarrow> string) \<Rightarrow> (string \<Rightarrow> jsDate) \<Rightarrow> jsDate row \<Rightarrow> jsDate RawRecord list" where
  "rowRecords render parseDate r =
     (case find (\<lambda>e. isPersonHeader (fst e)) r of
        None \<Rightarrow> []
      | Some personEntry \<Rightarrow>
          (let personName = trim (jsString render (snd personEntry)) in
           if personName = [] then []
           else
             (let groupEntry = find (\<lambda>e. isGroupHeader (fst e)) r;
                  groupName = (case groupEntry of
                             Some ge \<Rightarrow> trim (jsString render (snd ge))
                           | None \<Rightarrow> ''Default'')
              in concat (map (cellRecords parseDate r (fst personEntry)
                                (map_option fst groupEntry) personName groupName) r))))"

text \<open>
  The comparator of the final \<^verbatim>\<open>sort\<close>: the person, then the difference of the times,
  which is \<^verbatim>\<open>NaN\<close> when one of the two dates is invalid.
\<close>

definition compareRecords :: "jsDate RawRecord \<Rightarrow> jsDate RawRecord \<Rightarrow> int option" where
  "compareRecords a b =
     (if Pessoa a < Pessoa b then Some (- 1)
      else if Pessoa a > Pessoa b then Some 1
      else (case (getTime (DataHora a), getTime (DataHora b)) of
              (Some ta, Some tb) \<Rightarrow> Some (ta - tb)
            | _ \<Rightarrow> None))"

text \<open>
  \<^verbatim>\<open>Array.prototype.sort\<close> with a comparator is stable, and a comparator result of
  \<^verbatim>\<open>NaN\<close> counts as 0. On punches with valid times the comparator above is a total
  preorder and every stable sort returns the same list, computed here by insertion. With
  an invalid date among the punches of a person the comparator is not consistent (the
  invalid date compares as equal with every date), and the order that the host returns is
  implementation-defined: the list below is then one of the permitted results, and nothing
  that is proved below depends on the order in that case.
\<close>

fun insertBy :: "('a \<Rightarrow> 'a \<Rightarrow> int option) \<Rightarrow> 'a \<Rightarrow> 'a list \<Rightarrow> 'a list" where
  "insertBy cmp x [] = [x]"
| "insertBy cmp x (y # ys) =
     (if (case cmp x y of Some v \<Rightarrow> v > 0 | None \<Rightarrow> False) then y # insertBy cmp x ys
      else x # y # ys)"

definition sortBy :: "('a \<Rightarrow> 'a \<Rightarrow> int option) \<Rightarrow> 'a list \<Rightarrow> 'a list" where
  "sortBy cmp xs = foldr (insertBy cmp) xs []"

definition parseRawData ::
  "(jsDate cell \<Rightarrow> string) \<Rightarrow> (string \<Rightarrow> jsDate) \<Rightarrow> jsDate row list \<Rightarrow> jsDate RawRecord list" where
  "parseRawData render parseDate jsonData =
     sortBy compareRecords (concat (map (rowRecords render parseDate) jsonData))"

text \<open>
  The consolidators are modelled on punches whose times are valid. \<open>validPunches\<close>
  keeps the punches with a valid time, as records of that type; where every punch of the
  normalisation has a valid time, it is the whole stream.
\<close>

definition validPunch :: "jsDate RawRecord \<Rightarrow> Date RawRecord option" where
  "validPunch r =
     (case DataHora r of
        ValidDate t \<Rightarrow>
          Some \<lparr>Pessoa = Pessoa r, DataHora = t, Grupo = Grupo r, OriginalRow = OriginalRow r\<rparr>
      | InvalidDate \<Rightarrow> None)"

definition validPunches :: "jsDate RawRecord list \<Rightarrow> Date RawRecord list" where
  "validPunches records = List.map_filter validPunch records"

text \<open>A table whose Date cells are all valid, as the decoder hands it over.\<close>

definition decoded :: "Date row \<Rightarrow> jsDate row" where
  "decoded r = map (\<lambda>e. (fst e, map_cell ValidDate (snd e))) r"

subsection \<open>Grouping and segmentation\<close>

text \<open>
  \<^verbatim>\<open>groupedByPerson\<close> is a \<^verbatim>\<open>Map\<close>, which keeps its keys in the order of their
  first insertion: an association list.
\<close>

fun groupPush :: "(string \<times> Date RawRecord list) list \<Rightarrow> Date RawRecord \<Rightarrow> (string \<times> Date RawRecord list) list" where
  "groupPush [] r = [(Pessoa r, [r])]"
| "groupPush ((k, rs) # m) r =
     (if k = Pessoa r then (k, rs @ [r]) # m else (k, rs) # groupPush m r)"

definition groupByPerson :: "Date RawRecord list \<Rightarrow> (string \<times> Date RawRecord list) list" where
  "groupByPerson records = foldl groupPush [] records"

text \<open>
  The scan of one person's punches is written twice in the source, in
  \<^verbatim>\<open>processRecords\<close> (over dates, threshold from the configuration, cap 18) and in
  \<^verbatim>\<open>calculateDailyWorkers\<close> (over records, threshold 12, cap 16). Both are the loop
  below, whose state is the list of the shifts finalised so far and
  \<^verbatim>\<open>currentShiftPunches\<close>; where the source hands a finalised shift to
  \<^verbatim>\<open>calculateSingleShift\<close> or \<^verbatim>\<open>finalizeShift\<close>, the loop records its punches, and the
  caller applies that function to them in the same order.
\<close>

definition segStep ::
  "('a \<Rightarrow> Date) \<Rightarrow> rat \<Rightarrow> rat \<Rightarrow> 'a list list \<times> 'a list \<Rightarrow> 'a \<Rightarrow> 'a list list \<times> 'a list" where
  "segStep tm threshold cap st punch =
     (let finalised = fst st; currentShiftPunches = snd st in
      if length currentShiftPunches = 0 then (finalised, [punch])
      else
        (let firstPunchInShift = currentShiftPunches ! 0;
             lastPunch = currentShiftPunches ! (length currentShiftPunches - 1);
             diffHours = of_int (tm punch - tm lastPunch) / (1000 * 60 * 60);
             totalDurationHours = of_int (tm punch - tm firstPunchInShift) / (1000 * 60 * 60)
         in if diffHours \<le> threshold \<and> totalDurationHours \<le> cap then
              (finalised, currentShiftPunches @ [punch])
            else (finalised @ [currentShiftPunches], [punch])))"

definition segmentPunches :: "('a \<Rightarrow> Date) \<Rightarrow> rat \<Rightarrow> rat \<Rightarrow> 'a list \<Rightarrow> 'a list list" where
  "segmentPunches tm threshold cap punches =
     (let st = foldl (segStep tm threshold cap) ([], []) punches in
      if length (snd st) > 0 then fst st @ [snd st] else fst st)"

subsection \<open>The full-detail consolidator\<close>

fun calculateShifts ::
  "string \<Rightarrow> ProcessingConfig \<Rightarrow> (nat \<Rightarrow> rat) \<Rightarrow> Date list list \<Rightarrow> nat
     \<Rightarrow> error + (ProcessedShift list \<times> nat)" where
  "calculateShifts p config random [] n = Inr ([], n)"
| "calculateShifts p config random (punches # rest) n =
     (case calculateSingleShift p punches config random n of
        Inl e \<Rightarrow> Inl e
      | Inr (shift, n') \<Rightarrow>
          (case calculateShifts p config random rest n' of
             Inl e \<Rightarrow> Inl e
           | Inr (shifts, n'') \<Rightarrow> Inr (shift # shifts, n'')))"

definition processPerson ::
  "ProcessingConfig \<Rightarrow> (nat \<Rightarrow> rat) \<Rightarrow> string \<Rightarrow> Date RawRecord list \<Rightarrow> nat
     \<Rightarrow> error + (ProcessedShift list \<times> nat)" where
  "processPerson config random personName personRecords n =
     (if length personRecords = 0 then Inr ([], n)
      else calculateShifts personName config random
             (segmentPunches (\<lambda>d. d) (shiftThresholdHours config) 18 (map DataHora personRecords)) n)"

fun processGroups ::
  "ProcessingConfig \<Rightarrow> (nat \<Rightarrow> rat) \<Rightarrow> (string \<times> Date RawRecord list) list \<Rightarrow> nat
     \<Rightarrow> error + (ProcessedShift list \<times> nat)" where
  "processGroups config random [] n = Inr ([], n)"
| "processGroups config random ((personName, personRecords) # rest) n =
     (case processPerson config random personName personRecords n of
        Inl e \<Rightarrow> Inl e
      | Inr (shifts, n') \<Rightarrow>
          (case processGroups config random rest n' of
             Inl e \<Rightarrow> Inl e
           | Inr (shifts', n'') \<Rightarrow> Inr (shifts @ shifts', n'')))"

definition processRecords ::
  "Date RawRecord list \<Rightarrow> ProcessingConfig \<Rightarrow> (nat \<Rightarrow> rat) \<Rightarrow> error + ProcessedShift list" where
  "processRecords records config random =
     (case processGroups config random (groupByPerson records) 0 of
        Inl e \<Rightarrow> Inl e
      | Inr (shifts, n) \<Rightarrow> Inr (sort_key (\<lambda>s. (person s, startTime s)) shifts))"

text \<open>
  \<^verbatim>\<open>processTimesheetFile\<close> after the decoding of the file: normalise, then consolidate;
  for a table whose Date cells are all valid. Every punch of such a table has a valid time
  (\<open>parseRawData_decoded_valid\<close> below), so \<open>validPunches\<close> only changes the type of
  the records.
\<close>

definition processTimesheet ::
  "(jsDate cell \<Rightarrow> string) \<Rightarrow> (string \<Rightarrow> jsDate) \<Rightarrow> Date row list \<Rightarrow> ProcessingConfig
     \<Rightarrow> (nat \<Rightarrow> rat) \<Rightarrow> error + ProcessedShift list" where
  "processTimesheet render parseDate jsonData config random =
     processRecords (validPunches (parseRawData render parseDate (map decoded jsonData)))
       config random"

subsection \<open>The daily-worker consolidator\<close>

text \<open>
  A daily-worker row. \<open>durationMs\<close> is the local variable of that name in
  \<^verbatim>\<open>finalizeShift\<close>, which \<open>horaTotal\<close> renders. The identifier, the date string and the
  three columns sniffed from the source row (cpf, categoria, grupo) are left out.
\<close>

record DailyWorkerRecord =
  nome :: string
  chegada :: Date
  saida :: Date
  durationMs :: rat
  horaTotal :: string

text \<open>The predicate of \<^verbatim>\<open>gaps.find\<close> and the gap it finds.\<close>

definition isValidGap :: "Date \<times> Date \<Rightarrow> Gap \<Rightarrow> bool" where
  "isValidGap window g =
     (let isDurationValid = (durationMinutes g \<ge> 45 \<and> durationMinutes g \<le> 75) in
      if \<not> isDurationValid then False
      else
        (let overlapStart = max (gapStart g) (fst window);
             overlapEnd = min (gapEnd g) (snd window)
         in overlapStart < overlapEnd))"

definition validGapOf :: "Date list \<Rightarrow> Gap option" where
  "validGapOf punchDates =
     (if punchDates = [] then None
      else find (isValidGap (getLunchWindow (punchDates ! 0))) (gapsOf punchDates))"

text \<open>
  The net duration. The gap record holds the exact quotient; the double that the source
  holds in \<^verbatim>\<open>durationMinutes\<close> is its rounding, and each of the two products and the
  difference is rounded in turn. The products need not give back the length of the gap:
  for a gap of 3848000 ms, \<^verbatim>\<open>breakMs\<close> is 3848000.0000000005.
\<close>

definition breakMsOf :: "rat \<Rightarrow> rat" where
  "breakMsOf minutes = fl (fl (fl minutes * 60) * 1000)"

definition dailyDurationMs :: "Date list \<Rightarrow> rat" where
  "dailyDurationMs punchDates =
     (let start = punchDates ! 0;
          end' = punchDates ! (length punchDates - 1);
          durationMs0 = of_int (end' - start)
      in case validGapOf punchDates of
           Some validGap \<Rightarrow>
             (let breakMs = breakMsOf (durationMinutes validGap)
              in fl (durationMs0 - breakMs))
         | None \<Rightarrow> durationMs0)"

text \<open>The row that \<^verbatim>\<open>finalizeShift\<close> pushes for a shift that has punches.\<close>

definition dailyRecord :: "string \<Rightarrow> Date RawRecord list \<Rightarrow> DailyWorkerRecord" where
  "dailyRecord personName punches =
     (let firstRecord = punches ! 0;
          lastRecord = punches ! (length punches - 1);
          start = DataHora firstRecord;
          end' = DataHora lastRecord;
          netMs = dailyDurationMs (map DataHora punches)
      in \<lparr>nome = personName, chegada = start, saida = end',
          durationMs = netMs, horaTotal = formatDuration netMs\<rparr>)"

definition finalizeShift ::
  "string \<Rightarrow> Date RawRecord list \<Rightarrow> DailyWorkerRecord list \<Rightarrow> DailyWorkerRecord list" where
  "finalizeShift personName punches output =
     (if length punches = 0 then output
      else output @ [dailyRecord personName punches])"

definition dailyPerson ::
  "DailyWorkerRecord list \<Rightarrow> string \<times> Date RawRecord list \<Rightarrow> DailyWorkerRecord list" where
  "dailyPerson output entry =
     (let personName = fst entry;
          personRecords = sort_key DataHora (snd entry)
      in foldl (\<lambda>out punches. finalizeShift personName punches out) output
           (segmentPunches DataHora 12 16 personRecords))"

definition calculateDailyWorkers :: "Date RawRecord list \<Rightarrow> DailyWorkerRecord list" where
  "calculateDailyWorkers records =
     sort_key (\<lambda>r. (nome r, chegada r)) (foldl dailyPerson [] (groupByPerson records))"

subsection \<open>Sample inputs\<close>

text \<open>
  Inputs at which the theorems below are instantiated. Day 19782 is 2024-02-29;
  1709193600000 is 08:00 of that day. The host functions: every draw of
  \<^verbatim>\<open>Math.random()\<close> is 1/2; every string parses to the invalid date; cells that are not
  strings print as the empty string.
\<close>

definition drawHalf :: "nat \<Rightarrow> rat" where
  "drawHalf k = 1 / 2"

definition noParse :: "string \<Rightarrow> jsDate" where
  "noParse str = InvalidDate"

definition noRender :: "jsDate cell \<Rightarrow> string" where
  "noRender c = []"

text \<open>
  Ana: a reference date (midnight), punches at 08:00, 12:05, 13:10, 17:00, and a summary
  column. Bruno: punches at 08:00 and 16:00.
\<close>

definition sampleRows :: "Date row list" where
  "sampleRows =
     [[(''Nome'', CString '' Ana ''), (''Data'', CDate 1709164800000),
       (''Entrada'', CDate 1709193600000), (''Saida Almoco'', CDate 1709208300000),
       (''Volta'', CDate 1709212200000), (''Saida'', CDate 1709226000000),
       (''Total Horas'', CDate 1709222400000)],
      [(''Nome'', CString ''Bruno''), (''Entrada'', CDate 1709193600000),
       (''Saida'', CDate 1709222400000)]]"

text \<open>Bruno with the punch of 08:00 recorded twice and a punch at 10:00.\<close>

definition duplicateRows :: "Date row list" where
  "duplicateRows =
     [[(''Nome'', CString ''Bruno''), (''Entrada'', CDate 1709193600000),
       (''Entrada 2'', CDate 1709193600000), (''Saida'', CDate 1709200800000)]]"

definition zeroMinConfig :: ProcessingConfig where
  "zeroMinConfig = \<lparr>shiftThresholdHours = 8, lunchMinDuration = 0,
     lunchMaxDuration = 75, defaultLunchDuration = 60\<rparr>"

text \<open>A configuration that takes gaps of 10 to 20 minutes as breaks.\<close>

definition shortBreakConfig :: ProcessingConfig where
  "shortBreakConfig = \<lparr>shiftThresholdHours = 8, lunchMinDuration = 10,
     lunchMaxDuration = 20, defaultLunchDuration = 60\<rparr>"

text \<open>Ana with one punch column, whose cell is a Date object holding the invalid date.\<close>

definition invalidDateRows :: "jsDate row list" where
  "invalidDateRows = [[(''Nome'', CString ''Ana''), (''Entrada'', CDate InvalidDate)]]"

text \<open>A record of a person at a time, with no group column and an empty source row.\<close>

definition sampleRecord :: "string \<Rightarrow> Date \<Rightarrow> Date RawRecord" where
  "sampleRecord p t = \<lparr>Pessoa = p, DataHora = t, Grupo = ''Default'', OriginalRow = []\<rparr>"

subsection \<open>Predicates used in the proofs\<close>

text \<open>
  A finalised shift is not empty and spans at most the cap; the invariant of the scan
  after the punches \<open>xs\<close>.
\<close>

definition segBounded :: "('a \<Rightarrow> Date) \<Rightarrow> rat \<Rightarrow> 'a list \<Rightarrow> bool" where
  "segBounded tm cap seg =
     (seg \<noteq> [] \<and> of_int (tm (last seg) - tm (hd seg)) / (1000 * 60 * 60) \<le> cap)"

definition segInv :: "('a \<Rightarrow> Date) \<Rightarrow> rat \<Rightarrow> 'a list \<Rightarrow> 'a list list \<times> 'a list \<Rightarrow> bool" where
  "segInv tm cap xs st =
     (concat (fst st) @ snd st = xs
      \<and> (\<forall>seg \<in> set (fst st). segBounded tm cap seg)
      \<and> (snd st = [] \<longrightarrow> xs = [] \<and> fst st = [])
      \<and> (snd st \<noteq> [] \<longrightarrow> segBounded tm cap (snd st)))"

text \<open>The invariant of the grouping after the records \<open>recs\<close>.\<close>

definition groupInv :: "Date RawRecord list \<Rightarrow> (string \<times> Date RawRecord list) list \<Rightarrow> bool" where
  "groupInv recs m =
     (distinct (map fst m)
      \<and> (\<forall>e \<in> set m. snd e \<noteq> [])
      \<and> (\<forall>e \<in> set m. snd e = filter (\<lambda>r. Pessoa r = fst e) recs)
      \<and> fst ` set m = Pessoa ` set recs)"

section \<open>Properties\<close>

subsection \<open>Numbers: what \<open>fl\<close> returns\<close>

text \<open>
  The exponent is the one described; \<open>fl x\<close> is a multiple of \<open>2 ^ (e - 52)\<close> at a
  distance of at most half that unit from \<open>x\<close>; and a whole number below \<open>2 ^ 53\<close> in
  absolute value is returned as it is.
\<close>

lemma pow2_powi: "pow2 k = 2 powi k"
  by (simp add: pow2_def power_int_def inverse_eq_divide power_one_over)

lemma pow2_pos: "0 < pow2 k"
  by (simp add: pow2_powi)

lemma binade_bounds:
  assumes "x \<noteq> 0"
  shows "pow2 (binade x) \<le> \<bar>x\<bar> \<and> \<bar>x\<bar> < pow2 (binade x + 1)"
proof -
  define a where "a = fst (quotient_of \<bar>x\<bar>)"
  define b where "b = snd (quotient_of \<bar>x\<bar>)"
  have q: "quotient_of \<bar>x\<bar> = (a, b)" by (simp add: a_def b_def)
  have b: "0 < b" using quotient_of_denom_pos [OF q] .
  have x: "\<bar>x\<bar> = of_int a / of_int b" using quotient_of_div [OF q] .
  have a: "0 < a"
  proof -
    have "0 < \<bar>x\<bar>" using assms by simp
    then have "(0::rat) < of_int a / of_int b" using x by simp
    then show ?thesis using b by (simp add: zero_less_divide_iff)
  qed
  define k where "k = bitlen a - bitlen b"
  have la: "1 \<le> bitlen a" and lb: "1 \<le> bitlen b"
    using a b by (simp_all add: bitlen_alt_def)
  from bitlen_bounds [OF a] have a1: "(2::rat) powi (bitlen a - 1) \<le> of_int a"
    and a2: "of_int a < (2::rat) powi (bitlen a)"
    using la
    by (simp_all add: power_int_def)
  from bitlen_bounds [OF b] have b1: "(2::rat) powi (bitlen b - 1) \<le> of_int b"
    and b2: "of_int b < (2::rat) powi (bitlen b)"
    using lb
    by (simp_all add: power_int_def)
  have bp: "(0::rat) < of_int b" using b by simp
  have lo: "(2::rat) powi (k - 1) < \<bar>x\<bar>"
  proof -
    have "(2::rat) powi (k - 1) * of_int b < 2 powi (k - 1) * 2 powi (bitlen b)"
      using b2 by (intro mult_strict_left_mono) simp_all
    also have "\<dots> = 2 powi (bitlen a - 1)"
      by (simp add: k_def power_int_add [symmetric])
    also have "\<dots> \<le> of_int a" by (rule a1)
    finally show ?thesis unfolding x using bp by (simp add: pos_less_divide_eq)
  qed
  have hi: "\<bar>x\<bar> < (2::rat) powi (k + 1)"
  proof -
    have "of_int a < (2::rat) powi (bitlen a)" by (rule a2)
    also have "\<dots> = 2 powi (k + 1) * 2 powi (bitlen b - 1)"
      by (simp add: k_def power_int_add [symmetric])
    also have "\<dots> \<le> 2 powi (k + 1) * of_int b"
      using b1 by (intro mult_left_mono) simp_all
    finally show ?thesis unfolding x using bp by (simp add: pos_divide_less_eq)
  qed
  have bin: "binade x = (if pow2 k \<le> \<bar>x\<bar> then k else k - 1)"
    by (simp add: binade_def Let_def k_def a_def b_def)
  show ?thesis
  proof (cases "pow2 k \<le> \<bar>x\<bar>")
    case True
    with bin hi show ?thesis by (simp add: pow2_powi)
  next
    case False
    with bin lo show ?thesis by (simp add: pow2_powi not_le less_imp_le)
  qed
qed

lemma roundHalfEven_close: "\<bar>of_int (roundHalfEven q) - q\<bar> \<le> 1 / 2"
proof -
  have "0 \<le> q - of_int \<lfloor>q\<rfloor>" "q - of_int \<lfloor>q\<rfloor> < 1" by linarith+
  then show ?thesis
    unfolding roundHalfEven_def Let_def
    by (cases "q - of_int \<lfloor>q\<rfloor> < 1 / 2"; cases "1 / 2 < q - of_int \<lfloor>q\<rfloor>";
        cases "even \<lfloor>q\<rfloor>") (simp_all add: abs_if, linarith+)
qed

lemma fl_close: "\<bar>fl x - x\<bar> \<le> pow2 (binade x - 52) / 2"
proof (cases "x = 0")
  case True
  then show ?thesis using pow2_pos [of "binade x - 52"] by (simp add: fl_def)
next
  case False
  define u where "u = pow2 (binade x - 52)"
  have u: "0 < u" by (simp add: u_def pow2_pos)
  have "fl x - x = (of_int (roundHalfEven (x / u)) - x / u) * u"
    using False u by (simp add: fl_def Let_def u_def [symmetric] field_simps)
  then have "\<bar>fl x - x\<bar> = \<bar>of_int (roundHalfEven (x / u)) - x / u\<bar> * u"
    using u by (simp add: abs_mult)
  also have "\<dots> \<le> 1 / 2 * u"
    using roundHalfEven_close [of "x / u"] u by (intro mult_right_mono) simp_all
  finally show ?thesis by (simp add: u_def)
qed


lemma roundHalfEven_int: "roundHalfEven (of_int m) = m"
  by (simp add: roundHalfEven_def)

lemma fl_int:
  assumes "\<bar>n\<bar> < 2 ^ 53"
  shows "fl (of_int n) = of_int n"
proof (cases "n = 0")
  case True
  then show ?thesis by (simp add: fl_def)
next
  case False
  define e where "e = binade (of_int n)"
  have nz: "(of_int n :: rat) \<noteq> 0" using False by simp
  from binade_bounds [OF nz] have lo: "pow2 e \<le> \<bar>of_int n\<bar>" by (simp add: e_def)
  have e: "e \<le> 52"
  proof (rule ccontr)
    assume "\<not> e \<le> 52"
    then have "53 \<le> e" by simp
    then have "(2::rat) powi 53 \<le> 2 powi e" by (intro power_int_increasing) simp_all
    also have "\<dots> \<le> \<bar>of_int n\<bar>" using lo by (simp add: pow2_powi)
    finally have "(2::rat) ^ 53 \<le> of_int \<bar>n\<bar>" by simp
    then have "(of_int (2 ^ 53) :: rat) \<le> of_int \<bar>n\<bar>" by simp
    then have "2 ^ 53 \<le> \<bar>n\<bar>" by (simp only: of_int_le_iff)
    with assms show False by simp
  qed
  define d where "d = nat (52 - e)"
  have u: "pow2 (e - 52) = 1 / 2 ^ d"
    using e by (simp add: pow2_def d_def)
  have "of_int n / pow2 (e - 52) = (of_int (n * 2 ^ d) :: rat)"
    by (simp add: u)
  then have "roundHalfEven (of_int n / pow2 (e - 52)) = n * 2 ^ d"
    by (simp only: roundHalfEven_int)
  then show ?thesis
    using nz by (simp add: fl_def Let_def e_def [symmetric] u)
qed

subsection \<open>The meal window\<close>

lemma dayNumber_setDateTime:
  "0 \<le> hh * 3600000 + mm * 60000 \<Longrightarrow> hh * 3600000 + mm * 60000 < 86400000 \<Longrightarrow>
   dayNumber (setDateTime d hh mm) = dayNumber d
   \<and> msOfDay (setDateTime d hh mm) = hh * 3600000 + mm * 60000"
  unfolding dayNumber_def msOfDay_def setDateTime_def msPerDay_def
  by (simp add: add.assoc)

lemma dayNumber_addDays: "dayNumber (addDays d n) = dayNumber d + n"
  unfolding dayNumber_def addDays_def msPerDay_def by simp

text \<open>
  C7. The window resolved from a shift start \<open>t\<close>, by the hour of \<open>t\<close>: from 18 on, the
  window is 00:30 to 03:00 of the next calendar day (so for a start at 23:00); before 5,
  00:30 to 03:00 of the same day; from 5 to before 13, 10:30 to 14:30 of the same day; from
  13 to before 18, 17:30 to 20:00 of the same day. A bound is given by its calendar day
  and its milliseconds since that day's midnight.
\<close>

theorem getLunchWindow_by_start_hour:
  "(18 \<le> getHours t \<longrightarrow>
      dayNumber (fst (getLunchWindow t)) = dayNumber t + 1
    \<and> msOfDay (fst (getLunchWindow t)) = 30 * 60000
    \<and> dayNumber (snd (getLunchWindow t)) = dayNumber t + 1
    \<and> msOfDay (snd (getLunchWindow t)) = 3 * 3600000)
 \<and> (getHours t < 5 \<longrightarrow>
      dayNumber (fst (getLunchWindow t)) = dayNumber t
    \<and> msOfDay (fst (getLunchWindow t)) = 30 * 60000
    \<and> dayNumber (snd (getLunchWindow t)) = dayNumber t
    \<and> msOfDay (snd (getLunchWindow t)) = 3 * 3600000)
 \<and> (5 \<le> getHours t \<and> getHours t < 13 \<longrightarrow>
      dayNumber (fst (getLunchWindow t)) = dayNumber t
    \<and> msOfDay (fst (getLunchWindow t)) = 10 * 3600000 + 30 * 60000
    \<and> dayNumber (snd (getLunchWindow t)) = dayNumber t
    \<and> msOfDay (snd (getLunchWindow t)) = 14 * 3600000 + 30 * 60000)
 \<and> (13 \<le> getHours t \<and> getHours t < 18 \<longrightarrow>
      dayNumber (fst (getLunchWindow t)) = dayNumber t
    \<and> msOfDay (fst (getLunchWindow t)) = 17 * 3600000 + 30 * 60000
    \<and> dayNumber (snd (getLunchWindow t)) = dayNumber t
    \<and> msOfDay (snd (getLunchWindow t)) = 20 * 3600000)"
  by (simp add: getLunchWindow_def Let_def dayNumber_setDateTime dayNumber_addDays)

text \<open>
  The four cases at 2024-02-29 23:00, 02:00, 08:00 and 14:00 (day 19782); the first
  resolves to 2024-03-01 00:30 to 03:00.
\<close>

theorem getLunchWindow_by_start_hour_witness:
  "getHours 1709247600000 = 23
   \<and> getLunchWindow 1709247600000 = (1709253000000, 1709262000000)
   \<and> dayNumber 1709247600000 = 19782
   \<and> dayNumber 1709253000000 = 19783 \<and> msOfDay 1709253000000 = 1800000
   \<and> dayNumber 1709262000000 = 19783 \<and> msOfDay 1709262000000 = 10800000
   \<and> getHours 1709172000000 = 2 \<and> dayNumber (fst (getLunchWindow 1709172000000)) = 19782
   \<and> getHours 1709193600000 = 8 \<and> msOfDay (fst (getLunchWindow 1709193600000)) = 37800000
   \<and> getHours 1709215200000 = 14 \<and> msOfDay (snd (getLunchWindow 1709215200000)) = 72000000"
  using getLunchWindow_by_start_hour [of 1709247600000]
    getLunchWindow_by_start_hour [of 1709172000000]
    getLunchWindow_by_start_hour [of 1709193600000]
    getLunchWindow_by_start_hour [of 1709215200000]
  by (simp add: getHours_def getLunchWindow_def setDateTime_def addDays_def dayNumber_def
        msOfDay_def msPerDay_def)

subsection \<open>One shift: facts about the parts of \<open>calculateSingleShift\<close>\<close>


lemma nth0_hd: "xs \<noteq> [] \<Longrightarrow> xs ! 0 = hd xs"
  by (simp add: hd_conv_nth)

lemma nth_last': "xs \<noteq> [] \<Longrightarrow> xs ! (length xs - Suc 0) = last xs"
  by (simp add: last_conv_nth)

lemma gapsOf_bounds:
  "sorted ps \<Longrightarrow> g \<in> set (gapsOf ps) \<Longrightarrow>
     hd ps \<le> gapStart g \<and> gapStart g \<le> gapEnd g \<and> gapEnd g \<le> last ps"
proof (induction ps rule: gapsOf.induct)
  case (1 a b rest)
  show ?case
  proof (cases "g \<in> set (gapsOf (b # rest))")
    case True
    with 1 have "hd (b # rest) \<le> gapStart g \<and> gapStart g \<le> gapEnd g \<and> gapEnd g \<le> last (b # rest)"
      by simp
    with 1(2) show ?thesis by simp
  next
    case False
    with 1(3) have "gapStart g = a" "gapEnd g = b" by auto
    with 1(2) show ?thesis by auto
  qed
qed simp_all

lemma gapsOf_duration:
  "g \<in> set (gapsOf ps) \<Longrightarrow> durationMinutes g = of_int (gapEnd g - gapStart g) / 60000"
  by (induction ps rule: gapsOf.induct) auto

lemma validGapsOf_mem:
  "g \<in> set (validGapsOf config gaps) \<longleftrightarrow>
     g \<in> set gaps \<and> lunchMinDuration config \<le> durationMinutes g
     \<and> durationMinutes g \<le> lunchMaxDuration config"
  by (auto simp: validGapsOf_def)

lemma standardLunchOf_mem: "standardLunchOf w vs = Some g \<Longrightarrow> g \<in> set vs"
proof -
  assume a: "standardLunchOf w vs = Some g"
  have s: "sort_key (midDistance w) vs ! 0 \<in> set vs" if "1 < length vs"
  proof -
    have "sort_key (midDistance w) vs ! 0 \<in> set (sort_key (midDistance w) vs)"
      using that by (intro nth_mem) (cases vs, simp_all)
    then show ?thesis by simp
  qed
  have i: "insideWindowOf w vs ! 0 \<in> set vs" if "0 < length (insideWindowOf w vs)"
  proof -
    have "insideWindowOf w vs ! 0 \<in> set (insideWindowOf w vs)" using that by (intro nth_mem)
    then show ?thesis by (simp add: insideWindowOf_def)
  qed
  from a s i show ?thesis
    by (auto simp: standardLunchOf_def Let_def split: if_splits)
qed

lemma calculateSingleShift_nonempty:
  assumes "punches \<noteq> []"
  shows "calculateSingleShift p punches config random n =
     (if length punches < 2 \<or> last punches - hd punches < 1000 * 60 * 60 then
        Inr (shortShift p (hd punches) (last punches), n)
      else
        (case standardLunchOf (getLunchWindow (hd punches)) (validGapsOf config (gapsOf punches)) of
           Some g \<Rightarrow> Inr (finishShift p (hd punches) (last punches) (Some (gapStart g)) (Some (gapEnd g)) NORMAL, n)
         | None \<Rightarrow> Inr (artificialLunch p (hd punches) (last punches) (getLunchWindow (hd punches)) random n)))"
  using assms by (simp add: calculateSingleShift_def Let_def nth0_hd nth_last')

lemma calculateSingleShift_empty: "calculateSingleShift p [] config random n = Inl TypeError"
  by (simp add: calculateSingleShift_def)

lemma calculateSingleShift_Inr_nonempty: "calculateSingleShift p punches config random n = Inr r \<Longrightarrow> punches \<noteq> []"
  by (auto simp: calculateSingleShift_def)

lemma artificialMsOf_range:
  assumes "0 \<le> r" "r < 1"
  shows "60 * 60000 \<le> artificialMsOf r \<and> artificialMsOf r \<le> 65 * 60000 \<and> artificialMsOf r mod 60000 = 0"
proof -
  have "0 \<le> r * 6" using assms by simp
  then have a: "0 \<le> \<lfloor>r * 6\<rfloor>" by simp
  have "r * 6 < 6" using assms by simp
  then have "\<lfloor>r * 6\<rfloor> < 6" by (simp add: floor_less_iff)
  with a show ?thesis by (simp add: artificialMsOf_def)
qed

lemma randomOffset_range:
  assumes "0 \<le> r" "r < 1" "0 \<le> (m::int)"
  shows "0 \<le> \<lfloor>r * of_int m\<rfloor> \<and> \<lfloor>r * of_int m\<rfloor> \<le> m"
proof -
  have "0 \<le> r * of_int m" using assms by simp
  then have a: "0 \<le> \<lfloor>r * of_int m\<rfloor>" by simp
  have "r * of_int m \<le> 1 * of_int m" using assms by (intro mult_right_mono) auto
  then have "\<lfloor>r * of_int m\<rfloor> \<le> \<lfloor>(of_int m :: rat)\<rfloor>"
    using floor_mono [of "r * of_int m" "of_int m"] by simp
  with a show ?thesis by simp
qed

lemma finishShift_fields [simp]:
  "person (finishShift p s e ls le lt) = p"
  "startTime (finishShift p s e ls le lt) = s"
  "endTime (finishShift p s e ls le lt) = e"
  "lunchStart (finishShift p s e ls le lt) = ls"
  "lunchEnd (finishShift p s e ls le lt) = le"
  "lunchType (finishShift p s e ls le lt) = lt"
  "warnings (finishShift p s e ls le lt) = []"
  by (simp_all add: finishShift_def Let_def)

lemma finishShift_workedMs:
  "workedMs (finishShift p s e (Some a) (Some b) lt) = max 0 ((a - s) + (e - b))"
  "workedMs (finishShift p s e None None lt) = max 0 (e - s)"
  by (simp_all add: finishShift_def Let_def max_def)

lemma shortShift_fields [simp]:
  "person (shortShift p s e) = p"
  "startTime (shortShift p s e) = s"
  "endTime (shortShift p s e) = e"
  "lunchStart (shortShift p s e) = None"
  "lunchEnd (shortShift p s e) = None"
  "lunchType (shortShift p s e) = NONE"
  "workedMs (shortShift p s e) = e - s"
  "workedHours (shortShift p s e) = of_int (e - s) / 3600000"
  "workedTimeStr (shortShift p s e) = formatDuration (of_int (e - s))"
  "warnings (shortShift p s e) = [''Turno com registro '' @ [CHR 0xFA] @ ''nico ou muito curto'']"
  by (simp_all add: shortShift_def Let_def)

lemma artificialLunch_fits:
  assumes "vp = validPeriodOf s e w" "artificialMsOf (random n) \<le> snd vp - fst vp"
  shows "artificialLunch p s e w random n =
       (finishShift p s e
          (Some (fst vp + \<lfloor>random (n + 1) * of_int (snd vp - fst vp - artificialMsOf (random n))\<rfloor>))
          (Some (fst vp + \<lfloor>random (n + 1) * of_int (snd vp - fst vp - artificialMsOf (random n))\<rfloor>
                 + artificialMsOf (random n)))
          ARTIFICIAL, n + 2)"
  using assms by (simp add: artificialLunch_def Let_def split_def)

lemma artificialLunch_too_short:
  assumes "vp = validPeriodOf s e w" "\<not> artificialMsOf (random n) \<le> snd vp - fst vp"
  shows "artificialLunch p s e w random n = (finishShift p s e None None NONE, n + 1)"
  using assms by (simp add: artificialLunch_def Let_def split_def)

lemma validPeriodOf_simps [simp]:
  "fst (validPeriodOf s e w) = max (s + 15 * 60000) (fst w)"
  "snd (validPeriodOf s e w) = min (e - 15 * 60000) (snd w)"
  by (simp_all add: validPeriodOf_def Let_def)

lemma artificialLunch_props:
  assumes r: "\<forall>k. 0 \<le> random k \<and> random k < 1"
    and a: "artificialLunch p s e w random n = (sh, n')"
  shows "person sh = p \<and> startTime sh = s \<and> endTime sh = e \<and> warnings sh = []"
    and "lunchType sh = ARTIFICIAL \<or> lunchType sh = NONE"
    and "lunchType sh = ARTIFICIAL \<Longrightarrow>
           \<exists>ls le. lunchStart sh = Some ls \<and> lunchEnd sh = Some le
             \<and> s + 15 * 60000 \<le> ls \<and> fst w \<le> ls \<and> le \<le> e - 15 * 60000 \<and> le \<le> snd w
             \<and> le - ls = artificialMsOf (random n)
             \<and> workedMs sh = max 0 ((ls - s) + (e - le))"
    and "lunchType sh = NONE \<Longrightarrow>
           lunchStart sh = None \<and> lunchEnd sh = None \<and> workedMs sh = max 0 (e - s)"
    and "min (e - 15 * 60000) (snd w) - max (s + 15 * 60000) (fst w) < artificialMsOf (random n)
           \<Longrightarrow> lunchType sh = NONE"
proof -
  define vp where "vp = validPeriodOf s e w"
  define ams where "ams = artificialMsOf (random n)"
  define off where "off = \<lfloor>random (n + 1) * of_int (snd vp - fst vp - ams)\<rfloor>"
  have vp: "fst vp = max (s + 15 * 60000) (fst w)" "snd vp = min (e - 15 * 60000) (snd w)"
    by (simp_all add: vp_def)
  show "person sh = p \<and> startTime sh = s \<and> endTime sh = e \<and> warnings sh = []"
    using a by (auto simp: artificialLunch_def Let_def split_def split: if_splits)
  show "lunchType sh = ARTIFICIAL \<or> lunchType sh = NONE"
    using a by (auto simp: artificialLunch_def Let_def split_def split: if_splits)
  show "lunchType sh = NONE \<Longrightarrow>
          lunchStart sh = None \<and> lunchEnd sh = None \<and> workedMs sh = max 0 (e - s)"
    using a
    by (auto simp: artificialLunch_def Let_def split_def finishShift_workedMs split: if_splits)
  show "min (e - 15 * 60000) (snd w) - max (s + 15 * 60000) (fst w) < artificialMsOf (random n)
           \<Longrightarrow> lunchType sh = NONE"
    using a artificialLunch_too_short [OF vp_def, of random n p] vp by auto
  show "\<exists>ls le. lunchStart sh = Some ls \<and> lunchEnd sh = Some le
             \<and> s + 15 * 60000 \<le> ls \<and> fst w \<le> ls \<and> le \<le> e - 15 * 60000 \<and> le \<le> snd w
             \<and> le - ls = artificialMsOf (random n)
             \<and> workedMs sh = max 0 ((ls - s) + (e - le))" if t: "lunchType sh = ARTIFICIAL"
  proof (cases "ams \<le> snd vp - fst vp")
    case False
    then have "lunchType sh = NONE"
      using a artificialLunch_too_short [OF vp_def, of random n p] by (auto simp: ams_def)
    with t show ?thesis by simp
  next
    case True
    then have sh: "sh = finishShift p s e (Some (fst vp + off)) (Some (fst vp + off + ams)) ARTIFICIAL"
      using a artificialLunch_fits [OF vp_def, of random n p] by (auto simp: ams_def off_def)
    have "0 \<le> off \<and> off \<le> snd vp - fst vp - ams"
      unfolding off_def using r True by (intro randomOffset_range) auto
    with vp show ?thesis
      unfolding sh ams_def [symmetric]
      by (simp add: finishShift_workedMs) (simp add: max_def min_def split: if_splits)
  qed
qed

lemma sorted_hd_le_last: "sorted (xs :: int list) \<Longrightarrow> xs \<noteq> [] \<Longrightarrow> hd xs \<le> last xs"
  by (cases xs) auto

lemma standardLunchOf_Nil [simp]: "standardLunchOf w [] = None"
  by (simp add: standardLunchOf_def)

lemma calc_sorted_props:
  assumes c: "calculateSingleShift p punches config random n = Inr (s, n')"
    and so: "sorted punches"
    and r: "\<forall>k. 0 \<le> random k \<and> random k < 1"
  shows "startTime s = hd punches \<and> endTime s = last punches \<and> startTime s \<le> endTime s"
    and "lunchType s = NONE \<Longrightarrow>
           lunchStart s = None \<and> lunchEnd s = None \<and> workedMs s = endTime s - startTime s"
    and "lunchType s \<noteq> NONE \<Longrightarrow>
           \<exists>ls le. lunchStart s = Some ls \<and> lunchEnd s = Some le
             \<and> startTime s \<le> ls \<and> ls \<le> le \<and> le \<le> endTime s
             \<and> workedMs s + (le - ls) = endTime s - startTime s
             \<and> (0 < lunchMinDuration config \<longrightarrow> ls < le)"
proof -
  have ne: "punches \<noteq> []"
    using c by (rule calculateSingleShift_Inr_nonempty)
  have hl: "hd punches \<le> last punches"
    using so ne by (rule sorted_hd_le_last)
  let ?w = "getLunchWindow (hd punches)"
  let ?vs = "validGapsOf config (gapsOf punches)"
  consider (short) "s = shortShift p (hd punches) (last punches)"
    | (normal) g where "standardLunchOf ?w ?vs = Some g"
        "s = finishShift p (hd punches) (last punches) (Some (gapStart g)) (Some (gapEnd g)) NORMAL"
    | (synth) "artificialLunch p (hd punches) (last punches) ?w random n = (s, n')"
    using c unfolding calculateSingleShift_nonempty [OF ne]
    by (auto split: if_splits option.splits)
  then have "(startTime s = hd punches \<and> endTime s = last punches \<and> startTime s \<le> endTime s)
     \<and> (lunchType s = NONE \<longrightarrow>
           lunchStart s = None \<and> lunchEnd s = None \<and> workedMs s = endTime s - startTime s)
     \<and> (lunchType s \<noteq> NONE \<longrightarrow>
           (\<exists>ls le. lunchStart s = Some ls \<and> lunchEnd s = Some le
             \<and> startTime s \<le> ls \<and> ls \<le> le \<and> le \<le> endTime s
             \<and> workedMs s + (le - ls) = endTime s - startTime s
             \<and> (0 < lunchMinDuration config \<longrightarrow> ls < le)))"
  proof cases
    case short
    with hl show ?thesis by simp
  next
    case (normal g)
    have gv: "g \<in> set ?vs" using normal(1) by (rule standardLunchOf_mem)
    then have gg: "g \<in> set (gapsOf punches)" and dmin: "lunchMinDuration config \<le> durationMinutes g"
      by (simp_all add: validGapsOf_mem)
    have b: "hd punches \<le> gapStart g \<and> gapStart g \<le> gapEnd g \<and> gapEnd g \<le> last punches"
      using so gg by (rule gapsOf_bounds)
    have d: "durationMinutes g = of_int (gapEnd g - gapStart g) / 60000"
      using gg by (rule gapsOf_duration)
    have strict: "gapStart g < gapEnd g" if "0 < lunchMinDuration config"
    proof -
      have "0 < durationMinutes g" using that dmin by simp
      then have "(0::rat) < of_int (gapEnd g - gapStart g)" unfolding d by simp
      then show ?thesis by simp
    qed
    from b strict hl show ?thesis
      unfolding normal(2) by (simp add: finishShift_workedMs)
  next
    case synth
    note ap = artificialLunch_props [OF r synth]
    have am: "60 * 60000 \<le> artificialMsOf (random n)"
      using artificialMsOf_range [of "random n"] r by simp
    show ?thesis
    proof (cases "lunchType s = ARTIFICIAL")
      case True
      from ap(3) [OF True] obtain ls le where
        l: "lunchStart s = Some ls" "lunchEnd s = Some le" "hd punches + 15 * 60000 \<le> ls"
           "le \<le> last punches - 15 * 60000" "le - ls = artificialMsOf (random n)"
           "workedMs s = max 0 ((ls - hd punches) + (last punches - le))"
        by blast
      from ap(1) l am True show ?thesis by simp
    next
      case False
      with ap(2) have n: "lunchType s = NONE" by simp
      from ap(4) [OF n] ap(1) hl n show ?thesis by simp
    qed
  qed
  then show "startTime s = hd punches \<and> endTime s = last punches \<and> startTime s \<le> endTime s"
    and "lunchType s = NONE \<Longrightarrow>
           lunchStart s = None \<and> lunchEnd s = None \<and> workedMs s = endTime s - startTime s"
    and "lunchType s \<noteq> NONE \<Longrightarrow>
           \<exists>ls le. lunchStart s = Some ls \<and> lunchEnd s = Some le
             \<and> startTime s \<le> ls \<and> ls \<le> le \<and> le \<le> endTime s
             \<and> workedMs s + (le - ls) = endTime s - startTime s
             \<and> (0 < lunchMinDuration config \<longrightarrow> ls < le)"
    by blast+
qed

subsection \<open>One shift: the claims about \<open>calculateSingleShift\<close>\<close>

text \<open>
  C8. A shift with fewer than two punches, or whose span from the first to the last punch
  is less than one hour, is returned with lunch type NONE, no lunch bounds, a worked time
  equal to the span (in milliseconds, in hours and as the formatted string) and the one
  warning of a single or too short record; every other shift is returned with no warning.
\<close>

theorem short_shift_warning:
  assumes "calculateSingleShift p punches config random n = Inr (s, n')"
  shows "(length punches < 2 \<or> last punches - hd punches < 1000 * 60 * 60 \<longrightarrow>
            lunchType s = NONE \<and> lunchStart s = None \<and> lunchEnd s = None
          \<and> startTime s = hd punches \<and> endTime s = last punches
          \<and> workedMs s = endTime s - startTime s
          \<and> workedHours s = of_int (endTime s - startTime s) / (1000 * 60 * 60)
          \<and> workedTimeStr s = formatDuration (of_int (endTime s - startTime s))
          \<and> warnings s = [''Turno com registro '' @ [CHR 0xFA] @ ''nico ou muito curto'']
          \<and> warnings s \<noteq> [])
       \<and> (\<not> (length punches < 2 \<or> last punches - hd punches < 1000 * 60 * 60) \<longrightarrow>
            warnings s = [])"
proof -
  have ne: "punches \<noteq> []"
    using assms by (rule calculateSingleShift_Inr_nonempty)
  show ?thesis
    using assms unfolding calculateSingleShift_nonempty [OF ne]
    by (auto split: if_splits option.splits simp: artificialLunch_def Let_def split_def)
qed

text \<open>A single punch at 08:00, and the four punches 08:00, 12:05, 13:10, 17:00.\<close>

theorem short_shift_warning_witness:
  "calculateSingleShift ''Ana'' [1709193600000] DEFAULT_CONFIG (\<lambda>k. 1 / 2) 0
     = Inr (shortShift ''Ana'' 1709193600000 1709193600000, 0)
   \<and> length [1709193600000 :: int] < 2
   \<and> lunchType (shortShift ''Ana'' 1709193600000 1709193600000) = NONE
   \<and> warnings (shortShift ''Ana'' 1709193600000 1709193600000) \<noteq> []
   \<and> calculateSingleShift ''Ana'' [1709193600000, 1709208300000, 1709212200000, 1709226000000]
        DEFAULT_CONFIG (\<lambda>k. 1 / 2) 0
     = Inr (finishShift ''Ana'' 1709193600000 1709226000000 (Some 1709208300000)
              (Some 1709212200000) NORMAL, 0)
   \<and> warnings (finishShift ''Ana'' 1709193600000 1709226000000 (Some 1709208300000)
              (Some 1709212200000) NORMAL) = []"
proof -
  have a: "calculateSingleShift ''Ana'' [1709193600000] DEFAULT_CONFIG (\<lambda>k. 1 / 2) 0
     = Inr (shortShift ''Ana'' 1709193600000 1709193600000, 0)"
    by (simp add: calculateSingleShift_def)
  have b: "calculateSingleShift ''Ana'' [1709193600000, 1709208300000, 1709212200000, 1709226000000]
        DEFAULT_CONFIG (\<lambda>k. 1 / 2) 0
     = Inr (finishShift ''Ana'' 1709193600000 1709226000000 (Some 1709208300000)
              (Some 1709212200000) NORMAL, 0)"
    by (simp add: calculateSingleShift_def Let_def validGapsOf_def standardLunchOf_def DEFAULT_CONFIG_def)
  from short_shift_warning [OF a] short_shift_warning [OF b] a b show ?thesis
    by simp
qed

text \<open>
  C3. In a shift whose lunch type is ARTIFICIAL the break lies within the shift start plus
  15 minutes and the shift end minus 15 minutes, within the meal window resolved from the
  shift start, and lasts between 60 and 65 minutes. When no gap qualifies and the
  intersection of the two intervals is shorter than the target length drawn, the shift is
  returned (no error) with lunch type NONE and no lunch bounds. The values of
  \<^verbatim>\<open>Math.random()\<close> lie in [0,1).
\<close>

theorem artificial_break_containment:
  assumes "calculateSingleShift p punches config random n = Inr (s, n')"
    and "\<forall>k. 0 \<le> random k \<and> random k < 1"
  shows "(lunchType s = ARTIFICIAL \<longrightarrow>
           (\<exists>ls le. lunchStart s = Some ls \<and> lunchEnd s = Some le
              \<and> startTime s + 15 * 60000 \<le> ls \<and> le \<le> endTime s - 15 * 60000
              \<and> fst (getLunchWindow (startTime s)) \<le> ls
              \<and> le \<le> snd (getLunchWindow (startTime s))
              \<and> 60 * 60000 \<le> le - ls \<and> le - ls \<le> 65 * 60000))
       \<and> (validGapsOf config (gapsOf punches) = []
            \<and> min (endTime s - 15 * 60000) (snd (getLunchWindow (startTime s)))
                - max (startTime s + 15 * 60000) (fst (getLunchWindow (startTime s)))
              < artificialMsOf (random n)
          \<longrightarrow> lunchType s = NONE \<and> lunchStart s = None \<and> lunchEnd s = None)"
proof -
  have ne: "punches \<noteq> []"
    using assms(1) by (rule calculateSingleShift_Inr_nonempty)
  let ?w = "getLunchWindow (hd punches)"
  let ?vs = "validGapsOf config (gapsOf punches)"
  consider (short) "s = shortShift p (hd punches) (last punches)"
    | (normal) g where "standardLunchOf ?w ?vs = Some g"
        "s = finishShift p (hd punches) (last punches) (Some (gapStart g)) (Some (gapEnd g)) NORMAL"
    | (synth) "artificialLunch p (hd punches) (last punches) ?w random n = (s, n')"
    using assms(1) unfolding calculateSingleShift_nonempty [OF ne]
    by (auto split: if_splits option.splits)
  then show ?thesis
  proof cases
    case short
    then show ?thesis by simp
  next
    case (normal g)
    then have "?vs \<noteq> []" by auto
    with normal show ?thesis by simp
  next
    case synth
    note ap = artificialLunch_props [OF assms(2) synth]
    have am: "60 * 60000 \<le> artificialMsOf (random n) \<and> artificialMsOf (random n) \<le> 65 * 60000"
      using artificialMsOf_range [of "random n"] assms(2) by simp
    have st: "startTime s = hd punches" "endTime s = last punches" using ap(1) by simp_all
    have 1: "lunchType s = ARTIFICIAL \<longrightarrow>
           (\<exists>ls le. lunchStart s = Some ls \<and> lunchEnd s = Some le
              \<and> startTime s + 15 * 60000 \<le> ls \<and> le \<le> endTime s - 15 * 60000
              \<and> fst (getLunchWindow (startTime s)) \<le> ls
              \<and> le \<le> snd (getLunchWindow (startTime s))
              \<and> 60 * 60000 \<le> le - ls \<and> le - ls \<le> 65 * 60000)"
      using ap(3) am unfolding st by fastforce
    have 2: "min (endTime s - 15 * 60000) (snd (getLunchWindow (startTime s)))
                - max (startTime s + 15 * 60000) (fst (getLunchWindow (startTime s)))
              < artificialMsOf (random n)
          \<longrightarrow> lunchType s = NONE \<and> lunchStart s = None \<and> lunchEnd s = None"
      using ap(4,5) unfolding st by blast
    from 1 2 show ?thesis by blast
  qed
qed

text \<open>
  Two punches at 08:00 and 16:00 with both draws 1/2: a break of 63 minutes inside
  [08:15, 15:45] and the window 10:30 to 14:30. Two punches at 08:00 and 09:30: the
  intersection is empty and no break is assigned.
\<close>

theorem artificial_break_containment_witness:
  "calculateSingleShift ''Bruno'' [1709193600000, 1709222400000] DEFAULT_CONFIG (\<lambda>k. 1 / 2) 0
     = Inr (finishShift ''Bruno'' 1709193600000 1709222400000 (Some 1709207910000)
              (Some 1709211690000) ARTIFICIAL, 2)
   \<and> getLunchWindow 1709193600000 = (1709202600000, 1709217000000)
   \<and> 1709193600000 + 15 * 60000 \<le> (1709207910000 :: int)
   \<and> (1709211690000 :: int) \<le> 1709222400000 - 15 * 60000
   \<and> (1709211690000 :: int) - 1709207910000 = 63 * 60000
   \<and> calculateSingleShift ''Bruno'' [1709193600000, 1709199000000] DEFAULT_CONFIG (\<lambda>k. 1 / 2) 0
     = Inr (finishShift ''Bruno'' 1709193600000 1709199000000 None None NONE, 1)
   \<and> validGapsOf DEFAULT_CONFIG (gapsOf [1709193600000, 1709199000000]) = []
   \<and> artificialMsOf (1 / 2) = 63 * 60000"
proof -
  have r: "\<forall>k::nat. (0::rat) \<le> 1 / 2 \<and> (1 / 2 :: rat) < 1" by simp
  have w: "getLunchWindow 1709193600000 = (1709202600000, 1709217000000)"
    by (simp add: getLunchWindow_def getHours_def setDateTime_def dayNumber_def msPerDay_def)
  have m: "artificialMsOf (1 / 2) = 63 * 60000"
    by (simp add: artificialMsOf_def)
  have v2: "validGapsOf DEFAULT_CONFIG (gapsOf [1709193600000, 1709199000000]) = []"
    by (simp add: validGapsOf_def DEFAULT_CONFIG_def)
  have a: "calculateSingleShift ''Bruno'' [1709193600000, 1709222400000] DEFAULT_CONFIG (\<lambda>k. 1 / 2) 0
     = Inr (finishShift ''Bruno'' 1709193600000 1709222400000 (Some 1709207910000)
              (Some 1709211690000) ARTIFICIAL, 2)"
    by (simp add: calculateSingleShift_def Let_def validGapsOf_def DEFAULT_CONFIG_def w
          artificialLunch_def split_def m)
  have b: "calculateSingleShift ''Bruno'' [1709193600000, 1709199000000] DEFAULT_CONFIG (\<lambda>k. 1 / 2) 0
     = Inr (finishShift ''Bruno'' 1709193600000 1709199000000 None None NONE, 1)"
    by (simp add: calculateSingleShift_def Let_def validGapsOf_def DEFAULT_CONFIG_def w
          artificialLunch_def split_def m)
  from artificial_break_containment [OF a r] artificial_break_containment [OF b r] a b w m v2
  show ?thesis by simp
qed

subsection \<open>The scan: invariants of the segmentation\<close>

lemma segStep_inv:
  assumes "0 \<le> cap" "segInv tm cap xs st"
  shows "segInv tm cap (xs @ [x]) (segStep tm threshold cap st x)"
proof (cases "snd st = []")
  case True
  with assms show ?thesis
    by (simp add: segInv_def segStep_def segBounded_def)
next
  case False
  with assms show ?thesis
    by (auto simp: segInv_def segStep_def segBounded_def Let_def nth0_hd nth_last')
qed

lemma segLoop_inv:
  assumes "0 \<le> cap"
  shows "segInv tm cap xs (foldl (segStep tm threshold cap) ([], []) xs)"
proof (induction xs rule: rev_induct)
  case Nil
  show ?case by (simp add: segInv_def)
next
  case (snoc x xs)
  then show ?case using segStep_inv [OF assms] by simp
qed

lemma segmentPunches_props:
  assumes "0 \<le> cap"
  shows "concat (segmentPunches tm threshold cap xs) = xs"
    and "seg \<in> set (segmentPunches tm threshold cap xs) \<Longrightarrow> segBounded tm cap seg"
    and "xs \<noteq> [] \<Longrightarrow> segmentPunches tm threshold cap xs \<noteq> []"
  using segLoop_inv [OF assms, of tm xs threshold]
  by (auto simp: segmentPunches_def segInv_def Let_def)

lemma sorted_wrt_concat_mem:
  "sorted_wrt P (concat xss) \<Longrightarrow> xs \<in> set xss \<Longrightarrow> sorted_wrt P xs"
  by (induction xss) (auto simp: sorted_wrt_append)

lemma segmentPunches_sorted:
  assumes "0 \<le> cap" "sorted (map tm xs)" "seg \<in> set (segmentPunches tm threshold cap xs)"
  shows "sorted (map tm seg)"
proof -
  have "sorted_wrt (\<lambda>a b. tm a \<le> tm b) (concat (segmentPunches tm threshold cap xs))"
    using assms(2) segmentPunches_props(1) [OF assms(1), of tm threshold xs]
    by (simp add: sorted_map)
  then have "sorted_wrt (\<lambda>a b. tm a \<le> tm b) seg"
    using assms(3) by (rule sorted_wrt_concat_mem)
  then show ?thesis by (simp add: sorted_map)
qed

subsection \<open>Grouping, ordering, and where a shift of the result comes from\<close>

lemma groupPush_keys: "fst ` set (groupPush m r) = insert (Pessoa r) (fst ` set m)"
  by (induction m r rule: groupPush.induct) auto

lemma groupPush_entries:
  assumes "distinct (map fst m)"
    and "\<forall>e \<in> set m. snd e \<noteq> []"
    and "\<forall>e \<in> set m. snd e = filter (\<lambda>x. Pessoa x = fst e) recs"
    and "Pessoa r \<notin> fst ` set m \<Longrightarrow> filter (\<lambda>x. Pessoa x = Pessoa r) recs = []"
  shows "distinct (map fst (groupPush m r))
     \<and> (\<forall>e \<in> set (groupPush m r). snd e \<noteq> [])
     \<and> (\<forall>e \<in> set (groupPush m r). snd e = filter (\<lambda>x. Pessoa x = fst e) (recs @ [r]))"
  using assms
proof (induction m r rule: groupPush.induct)
  case (1 r)
  then show ?case by simp
next
  case (2 k rs m r)
  have d: "distinct (map fst m)" and kn: "k \<notin> fst ` set m" using 2(2) by simp_all
  have e1: "\<forall>e \<in> set m. snd e \<noteq> []" and h1: "rs \<noteq> []"
    using 2(3) by simp_all
  have e2: "\<forall>e \<in> set m. snd e = filter (\<lambda>x. Pessoa x = fst e) recs"
    and h2: "rs = filter (\<lambda>x. Pessoa x = k) recs"
    using 2(4) by simp_all
  show ?case
  proof (cases "k = Pessoa r")
    case True
    have "fst x \<noteq> Pessoa r \<and> Pessoa r \<noteq> fst x" if "x \<in> set m" for x
      using that kn True by (metis image_eqI)
    then have "\<forall>x \<in> set m. snd x = filter (\<lambda>y. Pessoa y = fst x) (recs @ [r])"
      using e2 by simp
    moreover have "rs @ [r] = filter (\<lambda>x. Pessoa x = k) (recs @ [r])"
      using h2 True by simp
    ultimately show ?thesis using True 2(2) e1 by simp
  next
    case False
    have f: "Pessoa r \<notin> fst ` set m \<Longrightarrow> filter (\<lambda>x. Pessoa x = Pessoa r) recs = []"
      using 2(5) False by auto
    note IH = 2(1) [OF False d e1 e2 f]
    have kn': "k \<notin> fst ` set (groupPush m r)"
      using kn False by (simp add: groupPush_keys)
    have hd: "rs = filter (\<lambda>x. Pessoa x = k) (recs @ [r])"
      using h2 False by simp
    from IH have i1: "distinct (map fst (groupPush m r))"
      and i2: "\<forall>e \<in> set (groupPush m r). snd e \<noteq> []"
      and i3: "\<forall>e \<in> set (groupPush m r). snd e = filter (\<lambda>x. Pessoa x = fst e) (recs @ [r])"
      by blast+
    have g: "groupPush ((k, rs) # m) r = (k, rs) # groupPush m r"
      using False by simp
    have c1: "distinct (map fst ((k, rs) # groupPush m r))"
      using i1 kn' by simp
    have c2: "\<forall>e \<in> set ((k, rs) # groupPush m r). snd e \<noteq> []"
      using i2 h1 by simp
    have c3: "\<forall>e \<in> set ((k, rs) # groupPush m r).
                snd e = filter (\<lambda>x. Pessoa x = fst e) (recs @ [r])"
    proof
      fix e
      assume "e \<in> set ((k, rs) # groupPush m r)"
      then consider "e = (k, rs)" | "e \<in> set (groupPush m r)" by auto
      then show "snd e = filter (\<lambda>x. Pessoa x = fst e) (recs @ [r])"
      proof cases
        case 1
        with hd show ?thesis by (simp only: fst_conv snd_conv)
      next
        case 2
        with i3 show ?thesis by blast
      qed
    qed
    show ?thesis unfolding g using c1 c2 c3 by blast
  qed
qed

lemma groupPush_inv: "groupInv recs m \<Longrightarrow> groupInv (recs @ [r]) (groupPush m r)"
proof -
  assume g: "groupInv recs m"
  from g have d: "distinct (map fst m)"
    and e1: "\<forall>e \<in> set m. snd e \<noteq> []"
    and e2: "\<forall>e \<in> set m. snd e = filter (\<lambda>x. Pessoa x = fst e) recs"
    and k: "fst ` set m = Pessoa ` set recs"
    unfolding groupInv_def by blast+
  have f: "filter (\<lambda>x. Pessoa x = Pessoa r) recs = []" if "Pessoa r \<notin> fst ` set m"
  proof -
    have "Pessoa r \<notin> Pessoa ` set recs" using that k by simp
    then have "\<forall>x \<in> set recs. Pessoa x \<noteq> Pessoa r" by (metis image_eqI)
    then show ?thesis by (simp add: filter_empty_conv)
  qed
  have 3: "fst ` set (groupPush m r) = Pessoa ` set (recs @ [r])"
    using k by (simp add: groupPush_keys)
  from groupPush_entries [OF d e1 e2 f] 3 show ?thesis unfolding groupInv_def by blast
qed

lemma groupByPerson_inv: "groupInv recs (groupByPerson recs)"
proof (induction recs rule: rev_induct)
  case Nil
  show ?case by (simp add: groupInv_def groupByPerson_def)
next
  case (snoc r recs)
  then show ?case using groupPush_inv [of recs "groupByPerson recs" r]
    by (simp add: groupByPerson_def)
qed

lemma groupByPerson_entry:
  assumes "(p, rs) \<in> set (groupByPerson recs)"
  shows "rs \<noteq> [] \<and> rs = filter (\<lambda>r. Pessoa r = p) recs"
  using groupByPerson_inv [of recs] assms by (auto simp: groupInv_def)

lemma sorted_person_filter:
  assumes "sorted (map (\<lambda>r. (Pessoa r, DataHora r)) recs)"
  shows "sorted (map DataHora (filter (\<lambda>r. Pessoa r = p) recs))"
proof -
  have "sorted_wrt (\<lambda>a b. (Pessoa a, DataHora a) \<le> (Pessoa b, DataHora b)) recs"
    using assms by (simp add: sorted_map)
  then have "sorted_wrt (\<lambda>a b. (Pessoa a, DataHora a) \<le> (Pessoa b, DataHora b))
               (filter (\<lambda>r. Pessoa r = p) recs)"
    by (rule sorted_wrt_filter)
  then have "sorted_wrt (\<lambda>a b. DataHora a \<le> DataHora b) (filter (\<lambda>r. Pessoa r = p) recs)"
    by (rule sorted_wrt_mono_rel [rotated]) auto
  then show ?thesis by (simp add: sorted_map)
qed

lemma cellRecords_candidate:
  "r \<in> set (cellRecords parseDate rw personKey groupKey personName groupName entry)
     \<Longrightarrow> \<not> isMidnight (DataHora r) \<and> \<not> isInvalidYear (DataHora r)
         \<and> candidateDate parseDate (snd entry) = Some (DataHora r)"
  by (auto simp: cellRecords_def Let_def split: if_splits option.splits)

lemma rowRecords_candidate:
  "r \<in> set (rowRecords render parseDate rw)
     \<Longrightarrow> \<not> isMidnight (DataHora r) \<and> \<not> isInvalidYear (DataHora r)
         \<and> (\<exists>entry \<in> set rw. candidateDate parseDate (snd entry) = Some (DataHora r))"
  by (auto simp: rowRecords_def Let_def split: option.splits if_splits
           dest: cellRecords_candidate)

lemma set_insertBy: "set (insertBy cmp x ys) = insert x (set ys)"
  by (induction ys) auto

lemma set_sortBy: "set (sortBy cmp xs) = set xs"
  by (induction xs) (simp_all add: sortBy_def set_insertBy)

lemma parseRawData_set:
  "set (parseRawData render parseDate jsonData)
     = (\<Union>rw \<in> set jsonData. set (rowRecords render parseDate rw))"
  by (simp add: parseRawData_def set_sortBy)

lemma parseRawData_candidate:
  "r \<in> set (parseRawData render parseDate jsonData)
     \<Longrightarrow> \<not> isMidnight (DataHora r) \<and> \<not> isInvalidYear (DataHora r)
         \<and> (\<exists>rw \<in> set jsonData. \<exists>entry \<in> set rw.
               candidateDate parseDate (snd entry) = Some (DataHora r))"
  unfolding parseRawData_set using rowRecords_candidate by blast

text \<open>
  A candidate with a valid time that passes the two filters has a year of at least 2020
  and a time of day other than 00:00:00.
\<close>

lemma filters_valid:
  "\<not> isMidnight (ValidDate t) \<and> \<not> isInvalidYear (ValidDate t) \<longleftrightarrow>
     2020 \<le> getFullYear t \<and> \<not> (getHours t = 0 \<and> getMinutes t = 0 \<and> getSeconds t = 0)"
  by (auto simp: isMidnight_def isInvalidYear_def dateField_def)

lemma parseRawData_filtered:
  "r \<in> set (parseRawData render parseDate jsonData) \<Longrightarrow> DataHora r = ValidDate t
     \<Longrightarrow> 2020 \<le> getFullYear t \<and> \<not> (getHours t = 0 \<and> getMinutes t = 0 \<and> getSeconds t = 0)"
  using parseRawData_candidate [of r render parseDate jsonData] filters_valid [of t] by simp

text \<open>In a table whose Date cells are all valid, every punch has a valid time.\<close>

lemma candidateDate_decoded:
  "candidateDate parseDate (map_cell ValidDate c) = Some d \<Longrightarrow> d \<noteq> InvalidDate"
  by (cases c)
    (auto simp: candidateDate_def Let_def isNaN_def getTime_def dateField_def
          split: if_splits jsDate.splits)

lemma parseRawData_decoded_valid:
  assumes "r \<in> set (parseRawData render parseDate (map decoded jsonData))"
  shows "DataHora r \<noteq> InvalidDate"
proof -
  from parseRawData_candidate [OF assms] obtain rw entry where
    rw: "rw \<in> set (map decoded jsonData)" and e: "entry \<in> set rw"
    and c: "candidateDate parseDate (snd entry) = Some (DataHora r)"
    by blast
  from rw e obtain c0 where "snd entry = map_cell ValidDate c0"
    by (auto simp: decoded_def)
  with c show ?thesis using candidateDate_decoded by metis
qed

text \<open>
  On punches with valid times the final sort is the stable sort by person, then time.
\<close>

lemma compareRecords_valid:
  assumes "validPunch a = Some a'" "validPunch b = Some b'"
  shows "(case compareRecords a b of Some v \<Rightarrow> v > 0 | None \<Rightarrow> False)
           \<longleftrightarrow> \<not> (Pessoa a', DataHora a') \<le> (Pessoa b', DataHora b')"
  using assms
  by (auto simp: validPunch_def compareRecords_def getTime_def dateField_def
        split: jsDate.splits)

lemma validPunches_insertBy:
  assumes "validPunch x = Some x'" "\<forall>y \<in> set ys. validPunch y \<noteq> None"
  shows "validPunches (insertBy compareRecords x ys)
           = insort_key (\<lambda>r. (Pessoa r, DataHora r)) x' (validPunches ys)"
  using assms(2)
proof (induction ys)
  case Nil
  show ?case using assms(1) by (simp add: validPunches_def map_filter_simps)
next
  case (Cons y ys)
  then obtain y' where y: "validPunch y = Some y'" by auto
  from Cons have IH: "validPunches (insertBy compareRecords x ys)
           = insort_key (\<lambda>r. (Pessoa r, DataHora r)) x' (validPunches ys)" by simp
  show ?case
    using compareRecords_valid [OF assms(1) y] IH y assms(1)
    by (simp add: validPunches_def map_filter_simps)
qed

lemma validPunch_None: "validPunch r = None \<longleftrightarrow> DataHora r = InvalidDate"
  by (simp add: validPunch_def split: jsDate.splits)

lemma validPunches_sortBy:
  assumes "\<forall>r \<in> set recs. DataHora r \<noteq> InvalidDate"
  shows "validPunches (sortBy compareRecords recs)
           = sort_key (\<lambda>r. (Pessoa r, DataHora r)) (validPunches recs)"
  using assms
proof (induction recs)
  case Nil
  show ?case by (simp add: sortBy_def validPunches_def map_filter_simps)
next
  case (Cons r recs)
  then obtain r' where r: "validPunch r = Some r'"
    using validPunch_None [of r] by auto
  have v: "\<forall>y \<in> set (sortBy compareRecords recs). validPunch y \<noteq> None"
    using Cons.prems by (simp add: set_sortBy validPunch_None)
  have "sortBy compareRecords (r # recs) = insertBy compareRecords r (sortBy compareRecords recs)"
    by (simp add: sortBy_def)
  then show ?case
    using validPunches_insertBy [OF r v] Cons r
    by (simp add: validPunches_def map_filter_simps sort_key_def)
qed

text \<open>
  Where every punch has a valid time, \<open>validPunches\<close> returns the same punches in the
  same order.
\<close>

lemma validPunches_all:
  assumes "\<forall>r \<in> set recs. DataHora r \<noteq> InvalidDate"
  shows "map (\<lambda>r. (Pessoa r, ValidDate (DataHora r), Grupo r, OriginalRow r)) (validPunches recs)
           = map (\<lambda>r. (Pessoa r, DataHora r, Grupo r, OriginalRow r)) recs"
  using assms
proof (induction recs)
  case Nil
  show ?case by (simp add: validPunches_def map_filter_simps)
next
  case (Cons r recs)
  then obtain t where "DataHora r = ValidDate t" by (cases "DataHora r") auto
  with Cons show ?case
    by (simp add: validPunches_def map_filter_simps validPunch_def)
qed

lemma validPunches_sorted:
  assumes "\<forall>r \<in> set (parseRawData render parseDate jsonData). DataHora r \<noteq> InvalidDate"
  shows "sorted (map (\<lambda>r. (Pessoa r, DataHora r))
           (validPunches (parseRawData render parseDate jsonData)))"
proof -
  have "\<forall>r \<in> set (concat (map (rowRecords render parseDate) jsonData)). DataHora r \<noteq> InvalidDate"
    using assms by (simp add: parseRawData_def set_sortBy)
  from validPunches_sortBy [OF this] show ?thesis
    by (simp add: parseRawData_def)
qed

lemma calculateShifts_origin:
  "calculateShifts p config random segs n = Inr (ss, n') \<Longrightarrow> s \<in> set ss \<Longrightarrow>
     \<exists>punches k k'. punches \<in> set segs \<and> calculateSingleShift p punches config random k = Inr (s, k')"
proof (induction segs arbitrary: n ss)
  case Nil
  then show ?case by simp
next
  case (Cons punches rest)
  from Cons.prems(1) obtain sh m ss' where
    a: "calculateSingleShift p punches config random n = Inr (sh, m)"
    and b: "calculateShifts p config random rest m = Inr (ss', n')"
    and c: "ss = sh # ss'"
    by (auto split: sum.splits prod.splits)
  show ?case
  proof (cases "s = sh")
    case True
    with a show ?thesis by auto
  next
    case False
    with c Cons.prems(2) have "s \<in> set ss'" by simp
    from Cons.IH [OF b this] show ?thesis by auto
  qed
qed

lemma calculateShifts_total:
  "\<forall>punches \<in> set segs. punches \<noteq> [] \<Longrightarrow>
     \<exists>ss n'. calculateShifts p config random segs n = Inr (ss, n')"
proof (induction segs arbitrary: n)
  case Nil
  show ?case by simp
next
  case (Cons punches rest)
  then have "punches \<noteq> []" by simp
  then have "\<exists>r. calculateSingleShift p punches config random n = Inr r"
    by (simp add: calculateSingleShift_nonempty split: option.splits)
  then obtain sh m where a: "calculateSingleShift p punches config random n = Inr (sh, m)"
    by (metis prod.exhaust)
  from Cons obtain ss n' where "calculateShifts p config random rest m = Inr (ss, n')"
    by fastforce
  with a show ?case by simp
qed

lemma processPerson_origin:
  assumes "processPerson config random p rs n = Inr (ss, n')" "s \<in> set ss"
  shows "\<exists>punches k k'.
           punches \<in> set (segmentPunches (\<lambda>d. d) (shiftThresholdHours config) 18 (map DataHora rs))
           \<and> calculateSingleShift p punches config random k = Inr (s, k')"
proof (cases "rs = []")
  case True
  with assms show ?thesis by (simp add: processPerson_def)
next
  case False
  with assms(1) have "calculateShifts p config random
      (segmentPunches (\<lambda>d. d) (shiftThresholdHours config) 18 (map DataHora rs)) n = Inr (ss, n')"
    by (simp add: processPerson_def)
  from calculateShifts_origin [OF this assms(2)] show ?thesis .
qed

lemma processPerson_total: "\<exists>ss n'. processPerson config random p rs n = Inr (ss, n')"
proof (cases "rs = []")
  case True
  then show ?thesis by (simp add: processPerson_def)
next
  case False
  have "\<forall>punches \<in> set (segmentPunches (\<lambda>d. d) (shiftThresholdHours config) 18 (map DataHora rs)).
          punches \<noteq> []"
    using segmentPunches_props(2) [of 18 _ "\<lambda>d. d" "shiftThresholdHours config" "map DataHora rs"]
    by (auto simp: segBounded_def)
  from calculateShifts_total [OF this] False show ?thesis
    by (simp add: processPerson_def)
qed

lemma processGroups_origin:
  "processGroups config random gs n = Inr (ss, n') \<Longrightarrow> s \<in> set ss \<Longrightarrow>
     \<exists>p rs k ss1 k'. (p, rs) \<in> set gs \<and> processPerson config random p rs k = Inr (ss1, k')
        \<and> s \<in> set ss1"
proof (induction gs arbitrary: n ss)
  case Nil
  then show ?case by simp
next
  case (Cons g gs)
  obtain p rs where g: "g = (p, rs)" by (cases g)
  from Cons.prems(1) obtain ss1 m ss2 where
    a: "processPerson config random p rs n = Inr (ss1, m)"
    and b: "processGroups config random gs m = Inr (ss2, n')"
    and c: "ss = ss1 @ ss2"
    unfolding g by (auto split: sum.splits prod.splits)
  show ?case
  proof (cases "s \<in> set ss1")
    case True
    have "(p, rs) \<in> set (g # gs)" using g by simp
    with a True show ?thesis by blast
  next
    case False
    with c Cons.prems(2) have "s \<in> set ss2" by simp
    from Cons.IH [OF b this] obtain p' rs' k ss1' k' where
      "(p', rs') \<in> set gs" "processPerson config random p' rs' k = Inr (ss1', k')" "s \<in> set ss1'"
      by blast
    moreover then have "(p', rs') \<in> set (g # gs)" by simp
    ultimately show ?thesis by blast
  qed
qed

lemma processGroups_total: "\<exists>ss n'. processGroups config random gs n = Inr (ss, n')"
proof (induction gs arbitrary: n)
  case Nil
  show ?case by simp
next
  case (Cons g gs)
  obtain p rs where g: "g = (p, rs)" by (cases g)
  obtain ss1 m where a: "processPerson config random p rs n = Inr (ss1, m)"
    using processPerson_total by blast
  obtain ss2 n' where "processGroups config random gs m = Inr (ss2, n')"
    using Cons by blast
  with a g show ?case by simp
qed

lemma processRecords_total: "\<exists>shifts. processRecords recs config random = Inr shifts"
proof -
  obtain ss n' where "processGroups config random (groupByPerson recs) 0 = Inr (ss, n')"
    using processGroups_total by blast
  then show ?thesis by (simp add: processRecords_def)
qed

lemma processRecords_origin:
  assumes "processRecords recs config random = Inr shifts" "s \<in> set shifts"
  shows "\<exists>p punches k k'.
           punches \<in> set (segmentPunches (\<lambda>d. d) (shiftThresholdHours config) 18
                            (map DataHora (filter (\<lambda>r. Pessoa r = p) recs)))
           \<and> calculateSingleShift p punches config random k = Inr (s, k')"
proof -
  from assms(1) obtain ss n' where
    a: "processGroups config random (groupByPerson recs) 0 = Inr (ss, n')"
    and b: "shifts = sort_key (\<lambda>s. (person s, startTime s)) ss"
    by (auto simp: processRecords_def split: sum.splits prod.splits)
  from b assms(2) have "s \<in> set ss" by simp
  from processGroups_origin [OF a this] obtain p rs k ss1 k' where
    g: "(p, rs) \<in> set (groupByPerson recs)"
    and c: "processPerson config random p rs k = Inr (ss1, k')" and d: "s \<in> set ss1"
    by blast
  from groupByPerson_entry [OF g] have "rs = filter (\<lambda>r. Pessoa r = p) recs" by simp
  with processPerson_origin [OF c d] show ?thesis by blast
qed

lemma pipeline_origin:
  assumes v: "\<forall>r \<in> set (parseRawData render parseDate jsonData). DataHora r \<noteq> InvalidDate"
    and sh: "processRecords (validPunches (parseRawData render parseDate jsonData)) config random
               = Inr shifts"
    and s: "s \<in> set shifts"
  shows "\<exists>p punches k k'. sorted punches
           \<and> of_int (last punches - hd punches) / (1000 * 60 * 60) \<le> (18 :: rat)
           \<and> calculateSingleShift p punches config random k = Inr (s, k')"
proof -
  let ?recs = "validPunches (parseRawData render parseDate jsonData)"
  from processRecords_origin [OF sh s]
  obtain p punches k k' where
    a: "punches \<in> set (segmentPunches (\<lambda>d. d) (shiftThresholdHours config) 18
                            (map DataHora (filter (\<lambda>r. Pessoa r = p) ?recs)))"
    and b: "calculateSingleShift p punches config random k = Inr (s, k')"
    by blast
  have "sorted (map DataHora (filter (\<lambda>r. Pessoa r = p) ?recs))"
    using validPunches_sorted [OF v] by (rule sorted_person_filter)
  then have "sorted (map (\<lambda>d. d) (map DataHora (filter (\<lambda>r. Pessoa r = p) ?recs)))"
    by simp
  from segmentPunches_sorted [OF _ this a] have s: "sorted punches" by simp
  from segmentPunches_props(2) [OF _ a] have "segBounded (\<lambda>d. d) 18 punches" by simp
  with s b show ?thesis by (auto simp: segBounded_def)
qed

lemma processTimesheet_origin:
  assumes "processTimesheet render parseDate jsonData config random = Inr shifts" "s \<in> set shifts"
  shows "\<exists>p punches k k'. sorted punches
           \<and> of_int (last punches - hd punches) / (1000 * 60 * 60) \<le> (18 :: rat)
           \<and> calculateSingleShift p punches config random k = Inr (s, k')"
proof -
  have "\<forall>r \<in> set (parseRawData render parseDate (map decoded jsonData)). DataHora r \<noteq> InvalidDate"
    using parseRawData_decoded_valid by blast
  from pipeline_origin [OF this assms [unfolded processTimesheet_def]] show ?thesis .
qed

lemma processTimesheet_total:
  "\<exists>shifts. processTimesheet render parseDate jsonData config random = Inr shifts"
  unfolding processTimesheet_def by (rule processRecords_total)

subsection \<open>The full-detail consolidator: the claims about every returned shift\<close>

lemma drawHalf_range: "\<forall>k. 0 \<le> drawHalf k \<and> drawHalf k < 1"
  by (simp add: drawHalf_def)

lemma sampleRows_valid:
  "\<forall>r \<in> set (parseRawData noRender noParse (map decoded sampleRows)). DataHora r \<noteq> InvalidDate"
  using parseRawData_decoded_valid by blast

lemma sampleRows_punches:
  "map DataHora (parseRawData noRender noParse (map decoded sampleRows))
     = [ValidDate 1709193600000, ValidDate 1709208300000, ValidDate 1709212200000,
        ValidDate 1709226000000, ValidDate 1709193600000, ValidDate 1709222400000]"
  by code_simp

lemma sampleRows_result:
  "processTimesheet noRender noParse sampleRows DEFAULT_CONFIG drawHalf
   = Inr [finishShift ''Ana'' 1709193600000 1709226000000 (Some 1709208300000)
              (Some 1709212200000) NORMAL,
       finishShift ''Bruno'' 1709193600000 1709222400000 (Some 1709207910000)
              (Some 1709211690000) ARTIFICIAL]"
  by code_simp

text \<open>
  C2, as amended. With draws in [0,1): for time-sorted punches (at least one),
  \<open>calculateSingleShift\<close> returns a shift, and it has start \<open>\<le>\<close> end; when its lunch type
  is not NONE, both lunch bounds are set and start \<open>\<le>\<close> lunchStart \<open>\<le>\<close> lunchEnd
  \<open>\<le>\<close> end, with lunchStart \<open><\<close> lunchEnd whenever the configured
  \<open>lunchMinDuration\<close> is positive. For any table, as the decoder hands it over, such that
  every punch that the normalisation emits has a valid time, and for every configuration,
  the full-detail consolidator returns (no error), and every shift it returns has these
  properties. Nothing is stated about a table from which a punch with an invalid time is
  emitted.
\<close>

theorem shift_bounds_invariant:
  fixes config :: ProcessingConfig
  defines "bounded \<equiv> \<lambda>s. startTime s \<le> endTime s
             \<and> (lunchType s \<noteq> NONE \<longrightarrow>
                  (\<exists>ls le. lunchStart s = Some ls \<and> lunchEnd s = Some le
                     \<and> startTime s \<le> ls \<and> ls \<le> le \<and> le \<le> endTime s
                     \<and> (0 < lunchMinDuration config \<longrightarrow> ls < le)))"
  assumes "\<forall>k. 0 \<le> random k \<and> random k < 1"
  shows "(punches \<noteq> [] \<and> sorted punches \<longrightarrow>
           (\<exists>s n'. calculateSingleShift p punches config random n = Inr (s, n') \<and> bounded s))
       \<and> ((\<forall>r \<in> set (parseRawData render parseDate jsonData). DataHora r \<noteq> InvalidDate) \<longrightarrow>
           (\<exists>shifts.
              processRecords (validPunches (parseRawData render parseDate jsonData)) config random
                = Inr shifts
              \<and> (\<forall>s \<in> set shifts. bounded s)))"
proof -
  have b: "bounded s"
    if "calculateSingleShift q ps config random k = Inr (s, k')" "sorted ps" for q ps k s k'
    unfolding bounded_def
    using calc_sorted_props(1) [OF that assms(2)] calc_sorted_props(3) [OF that assms(2)]
    by blast
  have 1: "\<exists>s n'. calculateSingleShift p punches config random n = Inr (s, n') \<and> bounded s"
    if "punches \<noteq> []" "sorted punches"
  proof -
    have "\<exists>r. calculateSingleShift p punches config random n = Inr r"
      using that(1) by (simp add: calculateSingleShift_nonempty split: option.splits)
    then obtain s n' where c: "calculateSingleShift p punches config random n = Inr (s, n')"
      by (metis prod.exhaust)
    from b [OF c that(2)] c show ?thesis by blast
  qed
  have 2: "\<exists>shifts.
              processRecords (validPunches (parseRawData render parseDate jsonData)) config random
                = Inr shifts
              \<and> (\<forall>s \<in> set shifts. bounded s)"
    if v: "\<forall>r \<in> set (parseRawData render parseDate jsonData). DataHora r \<noteq> InvalidDate"
  proof -
    obtain shifts where
      sh: "processRecords (validPunches (parseRawData render parseDate jsonData)) config random
             = Inr shifts"
      using processRecords_total by blast
    have "bounded s" if "s \<in> set shifts" for s
    proof -
      from pipeline_origin [OF v sh that] obtain q ps k k' where
        "sorted ps" "calculateSingleShift q ps config random k = Inr (s, k')"
        by blast
      then show ?thesis using b by blast
    qed
    with sh show ?thesis by blast
  qed
  from 1 2 show ?thesis by blast
qed

text \<open>
  The sample table under the baseline configuration: the six punches have valid times;
  Ana's break is a real gap, Bruno's is synthesised.
\<close>

theorem shift_bounds_invariant_witness:
  "0 \<le> drawHalf 0 \<and> drawHalf 0 < 1 \<and> 0 < lunchMinDuration DEFAULT_CONFIG
   \<and> sorted [1709193600000 :: int, 1709222400000]
   \<and> calculateSingleShift ''Bruno'' [1709193600000, 1709222400000] DEFAULT_CONFIG drawHalf 0
     = Inr (finishShift ''Bruno'' 1709193600000 1709222400000 (Some 1709207910000)
              (Some 1709211690000) ARTIFICIAL, 2)
   \<and> map DataHora (parseRawData noRender noParse (map decoded sampleRows))
     = [ValidDate 1709193600000, ValidDate 1709208300000, ValidDate 1709212200000,
        ValidDate 1709226000000, ValidDate 1709193600000, ValidDate 1709222400000]
   \<and> processRecords (validPunches (parseRawData noRender noParse (map decoded sampleRows)))
        DEFAULT_CONFIG drawHalf
     = Inr [finishShift ''Ana'' 1709193600000 1709226000000 (Some 1709208300000)
              (Some 1709212200000) NORMAL,
         finishShift ''Bruno'' 1709193600000 1709222400000 (Some 1709207910000)
              (Some 1709211690000) ARTIFICIAL]
   \<and> (1709193600000 :: int) \<le> 1709208300000 \<and> (1709208300000 :: int) < 1709212200000
   \<and> (1709212200000 :: int) \<le> 1709226000000
   \<and> (1709193600000 :: int) \<le> 1709207910000 \<and> (1709207910000 :: int) < 1709211690000
   \<and> (1709211690000 :: int) \<le> 1709222400000"
proof -
  have c: "calculateSingleShift ''Bruno'' [1709193600000, 1709222400000] DEFAULT_CONFIG drawHalf 0
     = Inr (finishShift ''Bruno'' 1709193600000 1709222400000 (Some 1709207910000)
              (Some 1709211690000) ARTIFICIAL, 2)"
    by code_simp
  from shift_bounds_invariant [OF drawHalf_range, where punches = "[1709193600000, 1709222400000]"
      and p = "''Bruno''" and config = DEFAULT_CONFIG and n = 0 and render = noRender
      and parseDate = noParse and jsonData = "map decoded sampleRows"]
    sampleRows_valid sampleRows_result sampleRows_punches c
  show ?thesis
    by (simp add: drawHalf_def DEFAULT_CONFIG_def processTimesheet_def)
qed

text \<open>
  C2 as stated fails when the configuration admits a gap of length zero: with
  \<open>lunchMinDuration = 0\<close> and the punch of 08:00 recorded twice, the shift 08:00 to 10:00
  is returned with a NORMAL lunch whose start and end are both 08:00.
\<close>

theorem shift_bounds_counterexample:
  "processTimesheet noRender noParse duplicateRows zeroMinConfig drawHalf
     = Inr [finishShift ''Bruno'' 1709193600000 1709200800000 (Some 1709193600000)
              (Some 1709193600000) NORMAL]
   \<and> lunchType (finishShift ''Bruno'' 1709193600000 1709200800000 (Some 1709193600000)
              (Some 1709193600000) NORMAL) = NORMAL
   \<and> lunchStart (finishShift ''Bruno'' 1709193600000 1709200800000 (Some 1709193600000)
              (Some 1709193600000) NORMAL) = Some 1709193600000
   \<and> lunchEnd (finishShift ''Bruno'' 1709193600000 1709200800000 (Some 1709193600000)
              (Some 1709193600000) NORMAL) = Some 1709193600000
   \<and> \<not> (1709193600000 :: int) < 1709193600000"
proof -
  have "processTimesheet noRender noParse duplicateRows zeroMinConfig drawHalf
     = Inr [finishShift ''Bruno'' 1709193600000 1709200800000 (Some 1709193600000)
              (Some 1709193600000) NORMAL]"
    by code_simp
  then show ?thesis by simp
qed

text \<open>
  The worked time, for a table such that every punch that the normalisation emits has a
  valid time: every returned shift with a resolved break has
  workedMs + (lunchEnd - lunchStart) = end - start; with no break, workedMs = end - start;
  and workedMs is never negative. In \<open>finishShift\<close> the worked time is the formula's
  value clamped at zero. (A punch with an invalid time, as the table \<open>invalidDateRows\<close>
  gives one, has \<^verbatim>\<open>NaN\<close> for its time; the consolidators are not modelled on such
  punches.)
\<close>

lemma worked_time_valid_punches:
  assumes "\<forall>k. 0 \<le> random k \<and> random k < 1"
    and "\<forall>r \<in> set (parseRawData render parseDate jsonData). DataHora r \<noteq> InvalidDate"
  shows "(\<exists>shifts.
           processRecords (validPunches (parseRawData render parseDate jsonData)) config random
             = Inr shifts
           \<and> (\<forall>s \<in> set shifts.
                 (lunchType s \<noteq> NONE \<longrightarrow>
                    (\<exists>ls le. lunchStart s = Some ls \<and> lunchEnd s = Some le
                       \<and> workedMs s + (le - ls) = endTime s - startTime s))
               \<and> (lunchType s = NONE \<longrightarrow>
                    lunchStart s = None \<and> lunchEnd s = None
                    \<and> workedMs s = endTime s - startTime s)
               \<and> 0 \<le> workedMs s))
       \<and> workedMs (finishShift p start end' (Some ls') (Some le') lType)
            = max 0 ((ls' - start) + (end' - le'))
       \<and> workedMs (finishShift p start end' None None lType) = max 0 (end' - start)"
proof -
  obtain shifts where
    sh: "processRecords (validPunches (parseRawData render parseDate jsonData)) config random
           = Inr shifts"
    using processRecords_total by blast
  have "(lunchType s \<noteq> NONE \<longrightarrow>
                    (\<exists>ls le. lunchStart s = Some ls \<and> lunchEnd s = Some le
                       \<and> workedMs s + (le - ls) = endTime s - startTime s))
               \<and> (lunchType s = NONE \<longrightarrow>
                    lunchStart s = None \<and> lunchEnd s = None
                    \<and> workedMs s = endTime s - startTime s)
               \<and> 0 \<le> workedMs s" if "s \<in> set shifts" for s
  proof -
    from pipeline_origin [OF assms(2) sh that] obtain q punches k k' where
      so: "sorted punches" and c: "calculateSingleShift q punches config random k = Inr (s, k')"
      by blast
    note p = calc_sorted_props [OF c so assms(1)]
    show ?thesis
    proof (cases "lunchType s = NONE")
      case True
      with p(1) p(2) show ?thesis by simp
    next
      case False
      from p(3) [OF False] obtain ls le where
        "lunchStart s = Some ls" "lunchEnd s = Some le" "startTime s \<le> ls" "ls \<le> le"
        "le \<le> endTime s" "workedMs s + (le - ls) = endTime s - startTime s"
        by blast
      with False show ?thesis by auto
    qed
  qed
  with sh show ?thesis by (simp add: finishShift_workedMs)
qed

subsection \<open>The choice among several qualifying gaps\<close>


lemma standardLunchOf_inside:
  assumes "insideWindowOf w vs \<noteq> []"
  shows "standardLunchOf w vs = Some (hd (insideWindowOf w vs))"
proof (cases vs)
  case Nil
  with assms show ?thesis by (simp add: insideWindowOf_def)
next
  case (Cons a rest)
  show ?thesis
  proof (cases rest)
    case Nil
    with Cons assms show ?thesis
      by (auto simp: standardLunchOf_def insideWindowOf_def split: if_splits)
  next
    case (Cons b rest')
    with \<open>vs = a # rest\<close> have "1 < length vs" by simp
    with assms show ?thesis
      by (simp add: standardLunchOf_def Let_def hd_conv_nth)
  qed
qed

lemma standardLunchOf_fallback:
  assumes "insideWindowOf w vs = []" "1 < length vs"
  shows "standardLunchOf w vs = Some (sort_key (midDistance w) vs ! 0)"
  using assms by (simp add: standardLunchOf_def Let_def)

lemma sorted_map_hd_le:
  "sorted (map f xs) \<Longrightarrow> x \<in> set xs \<Longrightarrow> f (hd xs) \<le> f x"
  by (cases xs) auto

lemma gapsOf_sum:
  "ps \<noteq> [] \<Longrightarrow> (\<Sum>g\<leftarrow>gapsOf ps. gapEnd g - gapStart g) = last ps - hd ps"
  by (induction ps rule: gapsOf.induct) simp_all

lemma sum_list_two_lower:
  fixes f :: "'a \<Rightarrow> int"
  assumes "2 \<le> length xs" "\<forall>x \<in> set xs. c \<le> f x" "0 \<le> c"
  shows "2 * c \<le> sum_list (map f xs)"
proof -
  from assms(1) obtain a b rest where xs: "xs = a # b # rest"
    by (cases xs; cases "tl xs") auto
  have "0 \<le> sum_list (map f rest)"
    using assms(2,3) xs by (intro sum_list_nonneg) auto
  with assms(2) xs show ?thesis by simp
qed

lemma two_valid_gaps_span:
  assumes so: "sorted ps" and m: "30 \<le> lunchMinDuration config"
    and two: "2 \<le> length (validGapsOf config (gapsOf ps))"
  shows "\<not> (length ps < 2 \<or> last ps - hd ps < 1000 * 60 * 60)"
proof -
  let ?f = "\<lambda>g. gapEnd g - gapStart g"
  let ?P = "\<lambda>g. durationMinutes g \<ge> lunchMinDuration config
                 \<and> durationMinutes g \<le> lunchMaxDuration config"
  have ne: "gapsOf ps \<noteq> []" using two by (auto simp: validGapsOf_def)
  then have len: "\<not> length ps < 2" by (cases ps rule: gapsOf.cases) auto
  then have pne: "ps \<noteq> []" by auto
  have nonneg: "0 \<le> ?f g" if "g \<in> set (gapsOf ps)" for g
    using gapsOf_bounds [OF so that] by simp
  have big: "1800000 \<le> ?f g" if "g \<in> set (validGapsOf config (gapsOf ps))" for g
  proof -
    from that have gg: "g \<in> set (gapsOf ps)" and d: "lunchMinDuration config \<le> durationMinutes g"
      by (simp_all add: validGapsOf_mem)
    from d m have "30 \<le> durationMinutes g" by simp
    then have "(30::rat) \<le> of_int (?f g) / 60000" using gapsOf_duration [OF gg] by simp
    then have "(1800000 :: rat) \<le> of_int (?f g)" by simp
    then show ?thesis by linarith
  qed
  have "2 * 1800000 \<le> sum_list (map ?f (validGapsOf config (gapsOf ps)))"
    using two big by (intro sum_list_two_lower) auto
  also have "\<dots> = sum_list (map (\<lambda>g. if ?P g then ?f g else 0) (gapsOf ps))"
    by (simp add: validGapsOf_def sum_list_map_filter')
  also have "\<dots> \<le> sum_list (map ?f (gapsOf ps))"
    using nonneg by (intro sum_list_mono) auto
  also have "\<dots> = last ps - hd ps" using pne by (rule gapsOf_sum)
  finally show ?thesis using len by simp
qed

lemma sampleWindow: "getLunchWindow 1709193600000 = (1709202600000, 1709217000000)"
  by (simp add: getLunchWindow_def getHours_def setDateTime_def dayNumber_def msPerDay_def)

text \<open>The gaps of a shift, by the index of the punch that starts them.\<close>

lemma gapsOf_length: "length (gapsOf ps) = length ps - 1"
  by (induction ps rule: gapsOf.induct) simp_all

lemma gapsOf_nth:
  "i + 1 < length ps \<Longrightarrow>
     gapsOf ps ! i = \<lparr>gapStart = ps ! i, gapEnd = ps ! (i + 1),
                      durationMinutes = of_int (ps ! (i + 1) - ps ! i) / (1000 * 60)\<rparr>"
proof (induction ps arbitrary: i rule: gapsOf.induct)
  case (1 a b rest)
  show ?case
  proof (cases i)
    case 0
    then show ?thesis by simp
  next
    case (Suc k)
    with 1 show ?thesis by simp
  qed
qed simp_all

lemma filter_first:
  assumes "i < length xs" "P (xs ! i)" "\<forall>j < i. \<not> P (xs ! j)"
  shows "filter P xs \<noteq> [] \<and> hd (filter P xs) = xs ! i"
  using assms
proof (induction xs arbitrary: i)
  case Nil
  then show ?case by simp
next
  case (Cons x xs)
  show ?case
  proof (cases i)
    case 0
    with Cons.prems show ?thesis by simp
  next
    case (Suc k)
    have nx: "\<not> P x" using Cons.prems(3) Suc by (metis nth_Cons_0 zero_less_Suc)
    have "\<forall>j < k. \<not> P (xs ! j)"
    proof (intro allI impI)
      fix j assume "j < k"
      then have "Suc j < i" using Suc by simp
      with Cons.prems(3) have "\<not> P ((x # xs) ! Suc j)" by blast
      then show "\<not> P (xs ! j)" by simp
    qed
    with Cons.prems Suc have "filter P xs \<noteq> [] \<and> hd (filter P xs) = xs ! k"
      by (intro Cons.IH) simp_all
    with nx Suc show ?thesis by simp
  qed
qed

lemma filter_two:
  assumes "i < k" "k < length xs" "P (xs ! i)" "P (xs ! k)"
  shows "1 < length (filter P xs)"
proof -
  have "xs ! i \<in> set (take k xs)"
    using assms(1,2) by (metis in_set_conv_nth length_take min.absorb2 less_imp_le nth_take)
  then have a: "filter P (take k xs) \<noteq> []" using assms(3) by (auto simp: filter_empty_conv)
  have "xs ! k \<in> set (drop k xs)"
    using assms(2) by (metis Cons_nth_drop_Suc list.set_intros(1))
  then have b: "filter P (drop k xs) \<noteq> []" using assms(4) by (auto simp: filter_empty_conv)
  have "filter P xs = filter P (take k xs) @ filter P (drop k xs)"
    by (metis append_take_drop_id filter_append)
  with a b show ?thesis
    by (cases "filter P (take k xs)"; cases "filter P (drop k xs)") simp_all
qed

lemma hd_sort_key_min:
  assumes "xs \<noteq> []" "x \<in> set xs"
  shows "f (hd (sort_key f xs)) \<le> f x" and "hd (sort_key f xs) \<in> set xs"
proof -
  have ne: "sort_key f xs \<noteq> []" using assms(1) by (metis length_0_conv length_sort)
  have "x \<in> set (sort_key f xs)" using assms(2) by simp
  with sorted_sort_key [of f xs] show "f (hd (sort_key f xs)) \<le> f x"
    by (rule sorted_map_hd_le)
  from ne have "hd (sort_key f xs) \<in> set (sort_key f xs)" by (rule hd_in_set)
  then show "hd (sort_key f xs) \<in> set xs" by simp
qed

lemma midDistance_gap:
  "midDistance w \<lparr>gapStart = a, gapEnd = b, durationMinutes = of_int (b - a) / (1000 * 60)\<rparr>
     = \<bar>(of_int a + of_int b) / 2 - (of_int (fst w) + of_int (snd w)) / 2\<bar>"
proof -
  have "of_int a + of_int (b - a) / (1000 * 60) * 60 * 1000 / 2 = ((of_int a + of_int b) / 2 :: rat)"
    by (simp add: field_simps)
  then show ?thesis
    by (simp only: midDistance_def Let_def Gap.select_convs of_int_add)
qed

text \<open>
  C10, as amended. Take a shift that passes the short-shift test (at least two punches and
  a span of at least one hour). The gap \<open>i\<close> runs from punch \<open>i\<close> to punch \<open>i + 1\<close>; it
  qualifies when its length in minutes lies within the configured bounds, and it is
  contained when it starts at or after the start of the meal window and ends at or before
  its end. If some gap qualifies and is contained, the first such gap in punch order is the
  NORMAL lunch. If two or more gaps qualify and none of the qualifying gaps is contained,
  the NORMAL lunch is a qualifying gap whose midpoint is at the least distance from the
  midpoint of the window. With time-sorted punches, \<open>lunchMinDuration \<ge> 30\<close> and two
  qualifying gaps, the shift always passes the short-shift test.
\<close>

theorem first_contained_gap_selected:
  fixes punches :: "Date list" and config :: ProcessingConfig
  defines "minutes \<equiv> \<lambda>i. (of_int (punches ! (i + 1) - punches ! i) / (1000 * 60) :: rat)"
  defines "qualifies \<equiv> \<lambda>i. i + 1 < length punches
             \<and> lunchMinDuration config \<le> minutes i \<and> minutes i \<le> lunchMaxDuration config"
  defines "inside \<equiv> \<lambda>i. fst (getLunchWindow (hd punches)) \<le> punches ! i
             \<and> punches ! (i + 1) \<le> snd (getLunchWindow (hd punches))"
  defines "midDist \<equiv> \<lambda>i. \<bar>(of_int (punches ! i) + of_int (punches ! (i + 1))) / 2
             - (of_int (fst (getLunchWindow (hd punches)))
                + of_int (snd (getLunchWindow (hd punches)))) / (2 :: rat)\<bar>"
  assumes "calculateSingleShift p punches config random n = Inr (s, n')"
  shows "(\<not> (length punches < 2 \<or> last punches - hd punches < 1000 * 60 * 60) \<longrightarrow>
           (qualifies i \<and> inside i \<and> (\<forall>j < i. \<not> (qualifies j \<and> inside j)) \<longrightarrow>
              lunchType s = NORMAL \<and> lunchStart s = Some (punches ! i)
            \<and> lunchEnd s = Some (punches ! (i + 1)))
         \<and> ((\<forall>j. \<not> (qualifies j \<and> inside j))
              \<and> (\<exists>a b. a < b \<and> qualifies a \<and> qualifies b) \<longrightarrow>
              (\<exists>m. qualifies m \<and> (\<forall>j. qualifies j \<longrightarrow> midDist m \<le> midDist j)
                 \<and> lunchType s = NORMAL \<and> lunchStart s = Some (punches ! m)
                 \<and> lunchEnd s = Some (punches ! (m + 1)))))
       \<and> (sorted punches \<and> 30 \<le> lunchMinDuration config
            \<and> (\<exists>a b. a < b \<and> qualifies a \<and> qualifies b) \<longrightarrow>
          \<not> (length punches < 2 \<or> last punches - hd punches < 1000 * 60 * 60))"
proof -
  let ?w = "getLunchWindow (hd punches)"
  let ?gs = "gapsOf punches"
  let ?vs = "validGapsOf config ?gs"
  let ?V = "\<lambda>g. durationMinutes g \<ge> lunchMinDuration config
                 \<and> durationMinutes g \<le> lunchMaxDuration config"
  let ?I = "\<lambda>g. gapStart g \<ge> fst ?w \<and> gapEnd g \<le> snd ?w"
  have ne: "punches \<noteq> []"
    using assms(5) by (rule calculateSingleShift_Inr_nonempty)
  have len: "j < length ?gs \<longleftrightarrow> j + 1 < length punches" for j
    by (auto simp: gapsOf_length)
  have nth: "?gs ! j = \<lparr>gapStart = punches ! j, gapEnd = punches ! (j + 1),
                         durationMinutes = minutes j\<rparr>" if "j + 1 < length punches" for j
    unfolding minutes_def using that by (rule gapsOf_nth)
  have q: "qualifies j \<longleftrightarrow> j < length ?gs \<and> ?V (?gs ! j)" for j
    using nth [of j] by (auto simp: qualifies_def len)
  have c: "inside j \<longleftrightarrow> ?I (?gs ! j)" if "j + 1 < length punches" for j
    using nth [OF that] by (simp add: inside_def)
  have d: "midDistance ?w (?gs ! j) = midDist j" if "j + 1 < length punches" for j
    unfolding nth [OF that] minutes_def midDist_def by (rule midDistance_gap)
  have vs: "?vs = filter ?V ?gs" by (simp add: validGapsOf_def)
  have iw: "insideWindowOf ?w ?vs = filter (\<lambda>g. ?V g \<and> ?I g) ?gs"
    by (simp add: insideWindowOf_def validGapsOf_def)
  have a: "lunchType s = NORMAL \<and> lunchStart s = Some (gapStart g) \<and> lunchEnd s = Some (gapEnd g)"
    if "\<not> (length punches < 2 \<or> last punches - hd punches < 1000 * 60 * 60)"
      and "standardLunchOf ?w ?vs = Some g" for g
    using assms(5) that unfolding calculateSingleShift_nonempty [OF ne] by auto
  have two: "1 < length ?vs" if "\<exists>a b. a < b \<and> qualifies a \<and> qualifies b"
  proof -
    from that obtain a b where "a < b" "qualifies a" "qualifies b" by blast
    then show ?thesis unfolding vs q by (intro filter_two [of a b]) simp_all
  qed
  have 1: "lunchType s = NORMAL \<and> lunchStart s = Some (punches ! i)
            \<and> lunchEnd s = Some (punches ! (i + 1))"
    if ns: "\<not> (length punches < 2 \<or> last punches - hd punches < 1000 * 60 * 60)"
      and qi: "qualifies i" and ci: "inside i"
      and fi: "\<forall>j < i. \<not> (qualifies j \<and> inside j)"
  proof -
    have li: "i + 1 < length punches" using qi by (simp add: qualifies_def)
    have p1: "i < length ?gs" using li by (simp add: len)
    have p2: "?V (?gs ! i) \<and> ?I (?gs ! i)" using qi ci c [OF li] q by simp
    have p3: "\<forall>j < i. \<not> (?V (?gs ! j) \<and> ?I (?gs ! j))"
    proof (intro allI impI)
      fix j assume ji: "j < i"
      then have lj: "j + 1 < length punches" using li by simp
      from fi ji have "\<not> (qualifies j \<and> inside j)" by blast
      then show "\<not> (?V (?gs ! j) \<and> ?I (?gs ! j))"
        using c [OF lj] q [of j] lj by (simp add: len)
    qed
    from filter_first [of i ?gs "\<lambda>g. ?V g \<and> ?I g", OF p1 p2 p3]
    have "insideWindowOf ?w ?vs \<noteq> []" "hd (insideWindowOf ?w ?vs) = ?gs ! i"
      unfolding iw by simp_all
    with standardLunchOf_inside [of ?w ?vs]
    have "standardLunchOf ?w ?vs = Some (?gs ! i)" by simp
    from a [OF ns this] show ?thesis unfolding nth [OF li] by simp
  qed
  have 2: "\<exists>m. qualifies m \<and> (\<forall>j. qualifies j \<longrightarrow> midDist m \<le> midDist j)
                 \<and> lunchType s = NORMAL \<and> lunchStart s = Some (punches ! m)
                 \<and> lunchEnd s = Some (punches ! (m + 1))"
    if ns: "\<not> (length punches < 2 \<or> last punches - hd punches < 1000 * 60 * 60)"
      and none: "\<forall>j. \<not> (qualifies j \<and> inside j)"
      and ab: "\<exists>a b. a < b \<and> qualifies a \<and> qualifies b"
  proof -
    have l2: "1 < length ?vs" using ab by (rule two)
    then have vne: "?vs \<noteq> []" by auto
    have "\<not> (?V g \<and> ?I g)" if "g \<in> set ?gs" for g
    proof -
      from that obtain j where j: "j < length ?gs" "g = ?gs ! j"
        by (auto simp: in_set_conv_nth)
      then have lj: "j + 1 < length punches" by (simp add: len)
      from none have "\<not> (qualifies j \<and> inside j)" by blast
      then show ?thesis using c [OF lj] q [of j] j by simp
    qed
    then have "insideWindowOf ?w ?vs = []" unfolding iw by (simp add: filter_empty_conv)
    moreover have "sort_key (midDistance ?w) ?vs \<noteq> []"
      using vne by (metis length_0_conv length_sort)
    ultimately have sl: "standardLunchOf ?w ?vs = Some (hd (sort_key (midDistance ?w) ?vs))"
      using standardLunchOf_fallback [OF _ l2] by (simp add: hd_conv_nth)
    let ?g = "hd (sort_key (midDistance ?w) ?vs)"
    have "?g \<in> set ?vs" using vne by (intro hd_sort_key_min(2) [where x = "hd ?vs"]) simp_all
    then have "?g \<in> set ?gs" "?V ?g" unfolding vs by simp_all
    then obtain m where m: "m < length ?gs" "?g = ?gs ! m"
      by (auto simp: in_set_conv_nth)
    then have lm: "m + 1 < length punches" by (simp add: len)
    have qm: "qualifies m" using m \<open>?V ?g\<close> q by simp
    have mn: "midDist m \<le> midDist j" if "qualifies j" for j
    proof -
      from that have lj: "j + 1 < length punches" by (simp add: qualifies_def)
      from that q have "?gs ! j \<in> set ?vs" unfolding vs by simp
      from hd_sort_key_min(1) [OF vne this, of "midDistance ?w"]
      show ?thesis unfolding m(2) d [OF lm] d [OF lj] .
    qed
    from a [OF ns sl] have "lunchType s = NORMAL \<and> lunchStart s = Some (punches ! m)
                 \<and> lunchEnd s = Some (punches ! (m + 1))"
      unfolding m(2) nth [OF lm] by simp
    with qm mn show ?thesis by blast
  qed
  have 3: "\<not> (length punches < 2 \<or> last punches - hd punches < 1000 * 60 * 60)"
    if "sorted punches" "30 \<le> lunchMinDuration config"
      "\<exists>a b. a < b \<and> qualifies a \<and> qualifies b"
  proof -
    from two [OF that(3)] have "2 \<le> length ?vs" by simp
    with that(1,2) show ?thesis by (rule two_valid_gaps_span)
  qed
  from 1 2 3 show ?thesis by blast
qed

text \<open>
  Punches 08:00, 11:00, 12:00, 13:00, 17:00, window 10:30 to 14:30: the gaps from 11:00 and
  from 12:00 last 60 minutes and are contained, the gap from 08:00 lasts 180 minutes; the
  gap from 11:00 is taken. Punches 08:00, 09:00, 10:00, 17:00: the gaps from 08:00 and
  from 09:00 qualify and end before the window; the one from 09:00, whose midpoint 09:30
  is nearer to 12:30, is taken.
\<close>

theorem first_contained_gap_selected_witness:
  "calculateSingleShift ''Ana''
       [1709193600000, 1709204400000, 1709208000000, 1709211600000, 1709226000000]
       DEFAULT_CONFIG drawHalf 0
     = Inr (finishShift ''Ana'' 1709193600000 1709226000000 (Some 1709204400000)
              (Some 1709208000000) NORMAL, 0)
   \<and> getLunchWindow 1709193600000 = (1709202600000, 1709217000000)
   \<and> (of_int (1709204400000 - 1709193600000) / (1000 * 60) :: rat) = 180
   \<and> (of_int (1709208000000 - 1709204400000) / (1000 * 60) :: rat) = 60
   \<and> (of_int (1709211600000 - 1709208000000) / (1000 * 60) :: rat) = 60
   \<and> lunchMinDuration DEFAULT_CONFIG = 45 \<and> lunchMaxDuration DEFAULT_CONFIG = 75
   \<and> (1709202600000 :: int) \<le> 1709204400000 \<and> (1709211600000 :: int) \<le> 1709217000000
   \<and> calculateSingleShift ''Ana''
       [1709193600000, 1709197200000, 1709200800000, 1709226000000]
       DEFAULT_CONFIG drawHalf 0
     = Inr (finishShift ''Ana'' 1709193600000 1709226000000 (Some 1709197200000)
              (Some 1709200800000) NORMAL, 0)
   \<and> \<not> (1709202600000 :: int) \<le> 1709193600000 \<and> \<not> (1709202600000 :: int) \<le> 1709197200000
   \<and> sorted [1709193600000 :: int, 1709204400000, 1709208000000, 1709211600000, 1709226000000]"
proof -
  have a: "calculateSingleShift ''Ana''
       [1709193600000, 1709204400000, 1709208000000, 1709211600000, 1709226000000]
       DEFAULT_CONFIG drawHalf 0
     = Inr (finishShift ''Ana'' 1709193600000 1709226000000 (Some 1709204400000)
              (Some 1709208000000) NORMAL, 0)"
    by code_simp
  have b: "calculateSingleShift ''Ana''
       [1709193600000, 1709197200000, 1709200800000, 1709226000000]
       DEFAULT_CONFIG drawHalf 0
     = Inr (finishShift ''Ana'' 1709193600000 1709226000000 (Some 1709197200000)
              (Some 1709200800000) NORMAL, 0)"
    by code_simp
  from first_contained_gap_selected [OF a, where i = 1]
    first_contained_gap_selected [OF b, where i = 0] a b
  show ?thesis
    by (simp add: sampleWindow DEFAULT_CONFIG_def)
qed

text \<open>
  C10 as stated fails where the configured bounds admit short gaps: with bounds of 10 to
  20 minutes and punches at 11:00, 11:15, 11:30, the two gaps of 15 minutes qualify and lie
  in the window 10:30 to 14:30, but the shift spans less than an hour and is returned with
  lunch type NONE.
\<close>

theorem first_contained_gap_counterexample:
  "lunchMinDuration shortBreakConfig = 10 \<and> lunchMaxDuration shortBreakConfig = 20
   \<and> (of_int (1709205300000 - 1709204400000) / (1000 * 60) :: rat) = 15
   \<and> (of_int (1709206200000 - 1709205300000) / (1000 * 60) :: rat) = 15
   \<and> getLunchWindow 1709204400000 = (1709202600000, 1709217000000)
   \<and> (1709202600000 :: int) \<le> 1709204400000 \<and> (1709206200000 :: int) \<le> 1709217000000
   \<and> calculateSingleShift ''Ana'' [1709204400000, 1709205300000, 1709206200000]
        shortBreakConfig drawHalf 0
     = Inr (shortShift ''Ana'' 1709204400000 1709206200000, 0)
   \<and> lunchType (shortShift ''Ana'' 1709204400000 1709206200000) = NONE
   \<and> lunchStart (shortShift ''Ana'' 1709204400000 1709206200000) = None"
proof -
  have w: "getLunchWindow 1709204400000 = (1709202600000, 1709217000000)"
    by (simp add: getLunchWindow_def getHours_def setDateTime_def dayNumber_def msPerDay_def)
  have "calculateSingleShift ''Ana'' [1709204400000, 1709205300000, 1709206200000]
        shortBreakConfig drawHalf 0
     = Inr (shortShift ''Ana'' 1709204400000 1709206200000, 0)"
    by (simp add: calculateSingleShift_def)
  then show ?thesis
    by (simp add: w shortBreakConfig_def)
qed

subsection \<open>The scan: two consecutive punches\<close>

lemma segStep_nonempty_cases:
  assumes "cur \<noteq> []"
  shows "segStep tm threshold cap (fin, cur) x =
     (if of_int (tm x - tm (last cur)) / (1000 * 60 * 60) \<le> threshold
         \<and> of_int (tm x - tm (hd cur)) / (1000 * 60 * 60) \<le> cap
      then (fin, cur @ [x]) else (fin @ [cur], [x]))"
  using assms by (simp add: segStep_def Let_def nth0_hd nth_last')

lemma segStep_snd_nonempty: "snd (segStep tm threshold cap st x) \<noteq> []"
  by (simp add: segStep_def Let_def)

lemma segStep_last: "last (snd (segStep tm threshold cap st x)) = x"
  by (simp add: segStep_def Let_def)

lemma segLoop_snoc_state:
  "snd (foldl (segStep tm threshold cap) st (xs @ [a])) \<noteq> []
   \<and> last (snd (foldl (segStep tm threshold cap) st (xs @ [a]))) = a"
  by (simp add: segStep_snd_nonempty segStep_last)

lemma segLoop_continue:
  assumes "cur \<noteq> []"
  shows "\<exists>more rest. fst (foldl (segStep tm threshold cap) (fin, cur) ys)
                       @ [snd (foldl (segStep tm threshold cap) (fin, cur) ys)]
                     = fin @ [cur @ more] @ rest"
  using assms
proof (induction ys arbitrary: fin cur)
  case Nil
  have "fin @ [cur] = fin @ [cur @ []] @ []" by simp
  then show ?case by (metis foldl_Nil fst_conv snd_conv)
next
  case (Cons y ys)
  show ?case
  proof (cases "of_int (tm y - tm (last cur)) / (1000 * 60 * 60) \<le> threshold
         \<and> of_int (tm y - tm (hd cur)) / (1000 * 60 * 60) \<le> cap")
    case True
    then have st: "segStep tm threshold cap (fin, cur) y = (fin, cur @ [y])"
      using Cons.prems by (simp add: segStep_nonempty_cases)
    from Cons.IH [of "cur @ [y]" fin] obtain more rest where
      "fst (foldl (segStep tm threshold cap) (fin, cur @ [y]) ys)
         @ [snd (foldl (segStep tm threshold cap) (fin, cur @ [y]) ys)]
       = fin @ [(cur @ [y]) @ more] @ rest" by auto
    then have "fst (foldl (segStep tm threshold cap) (fin, cur) (y # ys))
         @ [snd (foldl (segStep tm threshold cap) (fin, cur) (y # ys))]
       = fin @ [cur @ (y # more)] @ rest" using st by simp
    then show ?thesis by blast
  next
    case False
    then have st: "segStep tm threshold cap (fin, cur) y = (fin @ [cur], [y])"
      using Cons.prems by (simp add: segStep_nonempty_cases)
    from Cons.IH [of "[y]" "fin @ [cur]"] obtain more rest where
      "fst (foldl (segStep tm threshold cap) (fin @ [cur], [y]) ys)
         @ [snd (foldl (segStep tm threshold cap) (fin @ [cur], [y]) ys)]
       = (fin @ [cur]) @ [[y] @ more] @ rest" by auto
    then have "fst (foldl (segStep tm threshold cap) (fin, cur) (y # ys))
         @ [snd (foldl (segStep tm threshold cap) (fin, cur) (y # ys))]
       = fin @ [cur @ []] @ (([y] @ more) # rest)" using st by simp
    then show ?thesis by blast
  qed
qed

lemma segmentPunches_state:
  assumes "snd (foldl (segStep tm threshold cap) ([], []) xs) \<noteq> []"
  shows "segmentPunches tm threshold cap xs
     = fst (foldl (segStep tm threshold cap) ([], []) xs)
       @ [snd (foldl (segStep tm threshold cap) ([], []) xs)]"
  using assms by (simp add: segmentPunches_def Let_def)

text \<open>Two consecutive punches \<open>a\<close>, \<open>p\<close> anywhere in a sequence.\<close>

lemma segmentPunches_consecutive:
  fixes tm :: "'a \<Rightarrow> Date" and threshold cap :: rat
  defines "S \<equiv> segmentPunches tm threshold cap"
  shows "last (S (xs @ [a])) \<noteq> [] \<and> last (last (S (xs @ [a]))) = a"
    and "of_int (tm p - tm a) / (1000 * 60 * 60) \<le> threshold
         \<Longrightarrow> of_int (tm p - tm (hd (last (S (xs @ [a]))))) / (1000 * 60 * 60) \<le> cap
         \<Longrightarrow> \<exists>more rest. S (xs @ [a, p] @ ys)
               = butlast (S (xs @ [a])) @ [last (S (xs @ [a])) @ [p] @ more] @ rest"
    and "\<not> (of_int (tm p - tm a) / (1000 * 60 * 60) \<le> threshold
            \<and> of_int (tm p - tm (hd (last (S (xs @ [a]))))) / (1000 * 60 * 60) \<le> cap)
         \<Longrightarrow> \<exists>more rest. S (xs @ [a, p] @ ys) = S (xs @ [a]) @ [[p] @ more] @ rest"
proof -
  let ?f = "segStep tm threshold cap"
  define fin where "fin = fst (foldl ?f ([], []) (xs @ [a]))"
  define cur where "cur = snd (foldl ?f ([], []) (xs @ [a]))"
  have st: "foldl ?f ([], []) (xs @ [a]) = (fin, cur)" by (simp add: fin_def cur_def)
  have cur: "cur \<noteq> []" "last cur = a"
    using segLoop_snoc_state [of tm threshold cap "([], [])" xs a] by (simp_all add: cur_def)
  have Sa: "S (xs @ [a]) = fin @ [cur]"
    unfolding S_def using segmentPunches_state [of tm threshold cap "xs @ [a]"] cur(1)
    by (simp add: fin_def cur_def)
  have full: "S (xs @ [a, p] @ ys)
      = fst (foldl ?f (?f (fin, cur) p) ys) @ [snd (foldl ?f (?f (fin, cur) p) ys)]"
  proof -
    have e: "xs @ [a, p] @ ys = (xs @ [a, p]) @ ys" by simp
    have f: "foldl ?f ([], []) (xs @ [a, p] @ ys) = foldl ?f (?f (fin, cur) p) ys"
      using st by simp
    have "snd (foldl ?f ([], []) (xs @ [a, p] @ ys)) \<noteq> []"
    proof (cases ys rule: rev_cases)
      case Nil
      then show ?thesis by (simp add: segStep_snd_nonempty)
    next
      case (snoc ys' y)
      then show ?thesis by (simp add: segStep_snd_nonempty)
    qed
    from segmentPunches_state [OF this] f show ?thesis by (simp add: S_def)
  qed
  show "last (S (xs @ [a])) \<noteq> [] \<and> last (last (S (xs @ [a]))) = a"
    using Sa cur by simp
  show "\<exists>more rest. S (xs @ [a, p] @ ys)
               = butlast (S (xs @ [a])) @ [last (S (xs @ [a])) @ [p] @ more] @ rest"
    if "of_int (tm p - tm a) / (1000 * 60 * 60) \<le> threshold"
      "of_int (tm p - tm (hd (last (S (xs @ [a]))))) / (1000 * 60 * 60) \<le> cap"
  proof -
    have "?f (fin, cur) p = (fin, cur @ [p])"
      using that cur Sa by (simp add: segStep_nonempty_cases)
    with full segLoop_continue [of "cur @ [p]" tm threshold cap fin ys]
    show ?thesis using Sa by auto
  qed
  show "\<exists>more rest. S (xs @ [a, p] @ ys) = S (xs @ [a]) @ [[p] @ more] @ rest"
    if "\<not> (of_int (tm p - tm a) / (1000 * 60 * 60) \<le> threshold
            \<and> of_int (tm p - tm (hd (last (S (xs @ [a]))))) / (1000 * 60 * 60) \<le> cap)"
  proof -
    have "?f (fin, cur) p = (fin @ [cur], [p])"
      using that cur Sa by (simp add: segStep_nonempty_cases)
    with full segLoop_continue [of "[p]" tm threshold cap "fin @ [cur]" ys]
    show ?thesis using Sa by auto
  qed
qed

subsection \<open>The daily-worker rows, and the cap in whole milliseconds\<close>

lemma calc_start_end:
  assumes "calculateSingleShift p punches config random n = Inr (s, n')"
  shows "person s = p \<and> startTime s = hd punches \<and> endTime s = last punches"
proof -
  have ne: "punches \<noteq> []"
    using assms by (rule calculateSingleShift_Inr_nonempty)
  show ?thesis
    using assms unfolding calculateSingleShift_nonempty [OF ne]
    by (auto split: if_splits option.splits simp: artificialLunch_def Let_def split_def)
qed

lemma finalizeShift_fold:
  "set (foldl (\<lambda>out punches. finalizeShift p punches out) acc segs)
     = set acc \<union> dailyRecord p ` {seg \<in> set segs. seg \<noteq> []}"
  by (induction segs arbitrary: acc) (auto simp: finalizeShift_def)

lemma dailyPerson_set:
  "set (dailyPerson acc (p, rs))
     = set acc \<union> dailyRecord p ` {seg \<in> set (segmentPunches DataHora 12 16 (sort_key DataHora rs)). seg \<noteq> []}"
  by (simp add: dailyPerson_def Let_def finalizeShift_fold)

lemma dailyGroups_set:
  "set (foldl dailyPerson acc gs)
     = set acc \<union> (\<Union>g \<in> set gs. dailyRecord (fst g) `
          {seg \<in> set (segmentPunches DataHora 12 16 (sort_key DataHora (snd g))). seg \<noteq> []})"
proof (induction gs arbitrary: acc)
  case Nil
  show ?case by simp
next
  case (Cons g gs)
  obtain p rs where g: "g = (p, rs)" by (cases g)
  show ?case unfolding g using Cons [of "dailyPerson acc (p, rs)"]
    by (simp add: dailyPerson_set Un_assoc)
qed

lemma calculateDailyWorkers_origin:
  assumes "r \<in> set (calculateDailyWorkers records)"
  shows "\<exists>p seg. seg \<in> set (segmentPunches DataHora 12 16
                      (sort_key DataHora (filter (\<lambda>x. Pessoa x = p) records)))
            \<and> seg \<noteq> [] \<and> r = dailyRecord p seg"
proof -
  from assms obtain g seg where
    g: "g \<in> set (groupByPerson records)"
    and s: "seg \<in> set (segmentPunches DataHora 12 16 (sort_key DataHora (snd g)))"
      "seg \<noteq> []" "r = dailyRecord (fst g) seg"
    by (auto simp: calculateDailyWorkers_def dailyGroups_set)
  from g groupByPerson_entry [of "fst g" "snd g" records]
  have "snd g = filter (\<lambda>x. Pessoa x = fst g) records" by simp
  with s show ?thesis by metis
qed

lemma dailyRecord_fields:
  assumes "seg \<noteq> []"
  shows "nome (dailyRecord p seg) = p"
    and "chegada (dailyRecord p seg) = DataHora (hd seg)"
    and "saida (dailyRecord p seg) = DataHora (last seg)"
    and "durationMs (dailyRecord p seg) = dailyDurationMs (map DataHora seg)"
    and "horaTotal (dailyRecord p seg) = formatDuration (dailyDurationMs (map DataHora seg))"
  using assms by (simp_all add: dailyRecord_def Let_def nth0_hd nth_last')

lemma cap_as_int:
  "(of_int d / (1000 * 60 * 60) \<le> (18 :: rat)) = (d \<le> 18 * 3600000)"
  "(of_int d / (1000 * 60 * 60) \<le> (16 :: rat)) = (d \<le> 16 * 3600000)"
proof -
  have "(of_int d / (1000 * 60 * 60) \<le> (18 :: rat)) = ((of_int d :: rat) \<le> of_int (18 * 3600000))"
    by simp
  also have "\<dots> = (d \<le> 18 * 3600000)" by (simp only: of_int_le_iff)
  finally show "(of_int d / (1000 * 60 * 60) \<le> (18 :: rat)) = (d \<le> 18 * 3600000)" .
  have "(of_int d / (1000 * 60 * 60) \<le> (16 :: rat)) = ((of_int d :: rat) \<le> of_int (16 * 3600000))"
    by simp
  also have "\<dots> = (d \<le> 16 * 3600000)" by (simp only: of_int_le_iff)
  finally show "(of_int d / (1000 * 60 * 60) \<le> (16 :: rat)) = (d \<le> 16 * 3600000)" .
qed

lemma segmentPunches_two:
  assumes "0 \<le> cap" "xs \<noteq> []"
    and "\<not> of_int (tm (last xs) - tm (hd xs)) / (1000 * 60 * 60) \<le> cap"
  shows "2 \<le> length (segmentPunches tm threshold cap xs)"
proof (rule ccontr)
  assume "\<not> 2 \<le> length (segmentPunches tm threshold cap xs)"
  moreover have "segmentPunches tm threshold cap xs \<noteq> []"
    using segmentPunches_props(3) [OF assms(1,2)] .
  ultimately obtain seg where one: "segmentPunches tm threshold cap xs = [seg]"
    by (cases "segmentPunches tm threshold cap xs"; cases "tl (segmentPunches tm threshold cap xs)") auto
  from segmentPunches_props(1) [OF assms(1), of tm threshold xs] one have "seg = xs" by simp
  moreover from segmentPunches_props(2) [OF assms(1), of seg tm threshold xs] one
  have "segBounded tm cap seg" by simp
  ultimately show False using assms(3) by (simp add: segBounded_def)
qed

lemma segBounded_int:
  "segBounded tm 18 seg \<longleftrightarrow> seg \<noteq> [] \<and> tm (last seg) - tm (hd seg) \<le> 18 * 3600000"
  "segBounded tm 16 seg \<longleftrightarrow> seg \<noteq> [] \<and> tm (last seg) - tm (hd seg) \<le> 16 * 3600000"
  unfolding segBounded_def cap_as_int by (rule refl)+

lemma segmentPunches_two_int:
  "xs \<noteq> [] \<Longrightarrow> 18 * 3600000 < tm (last xs) - tm (hd xs)
     \<Longrightarrow> 2 \<le> length (segmentPunches tm threshold 18 xs)"
  "xs \<noteq> [] \<Longrightarrow> 16 * 3600000 < tm (last xs) - tm (hd xs)
     \<Longrightarrow> 2 \<le> length (segmentPunches tm threshold 16 xs)"
proof -
  assume a: "xs \<noteq> []" "18 * 3600000 < tm (last xs) - tm (hd xs)"
  have "\<not> of_int (tm (last xs) - tm (hd xs)) / (1000 * 60 * 60) \<le> (18 :: rat)"
    unfolding cap_as_int using a(2) by simp
  with a(1) show "2 \<le> length (segmentPunches tm threshold 18 xs)"
    by (intro segmentPunches_two) simp_all
next
  assume a: "xs \<noteq> []" "16 * 3600000 < tm (last xs) - tm (hd xs)"
  have "\<not> of_int (tm (last xs) - tm (hd xs)) / (1000 * 60 * 60) \<le> (16 :: rat)"
    unfolding cap_as_int using a(2) by simp
  with a(1) show "2 \<le> length (segmentPunches tm threshold 16 xs)"
    by (intro segmentPunches_two) simp_all
qed

subsection \<open>Segmentation: the claims\<close>

text \<open>
  C5. Whatever the configuration, every shift that the full-detail scan produces is not
  empty and spans at most 18 hours from its first to its last punch, so a sequence of
  punches whose span exceeds 18 hours is cut into at least two shifts (whatever the gaps
  are, also when each is within the threshold); the shifts are consecutive pieces of the
  sequence. Every shift that the full-detail consolidator returns spans at most 18 hours.
  The same holds with 16 hours for the scan of the daily-worker mode and for every row
  that the daily-worker consolidator returns.
\<close>

theorem hard_cap_splits:
  "(\<forall>seg \<in> set (segmentPunches (\<lambda>d. d) (shiftThresholdHours config) 18 punches).
       seg \<noteq> [] \<and> last seg - hd seg \<le> 18 * 3600000)
 \<and> (punches \<noteq> [] \<and> 18 * 3600000 < last punches - hd punches \<longrightarrow>
       2 \<le> length (segmentPunches (\<lambda>d. d) (shiftThresholdHours config) 18 punches))
 \<and> concat (segmentPunches (\<lambda>d. d) (shiftThresholdHours config) 18 punches) = punches
 \<and> (\<exists>shifts. processTimesheet render parseDate jsonData config random = Inr shifts
       \<and> (\<forall>s \<in> set shifts. endTime s - startTime s \<le> 18 * 3600000))
 \<and> (\<forall>seg \<in> set (segmentPunches DataHora 12 16 records).
       seg \<noteq> [] \<and> DataHora (last seg) - DataHora (hd seg) \<le> 16 * 3600000)
 \<and> (records \<noteq> [] \<and> 16 * 3600000 < DataHora (last records) - DataHora (hd records) \<longrightarrow>
       2 \<le> length (segmentPunches DataHora 12 16 records))
 \<and> concat (segmentPunches DataHora 12 16 records) = records
 \<and> (\<forall>r \<in> set (calculateDailyWorkers allRecords). saida r - chegada r \<le> 16 * 3600000)"
proof -
  have z18: "(0::rat) \<le> 18" and z16: "(0::rat) \<le> 16" by simp_all
  have 1: "\<forall>seg \<in> set (segmentPunches (\<lambda>d. d) (shiftThresholdHours config) 18 punches).
       seg \<noteq> [] \<and> last seg - hd seg \<le> 18 * 3600000"
    using segmentPunches_props(2) [OF z18, of _ "\<lambda>d. d" "shiftThresholdHours config" punches]
    by (auto simp: segBounded_int)
  have 2: "2 \<le> length (segmentPunches (\<lambda>d. d) (shiftThresholdHours config) 18 punches)"
    if "punches \<noteq> []" "18 * 3600000 < last punches - hd punches"
    using segmentPunches_two_int(1) [of punches "\<lambda>d. d"] that by simp
  have 3: "concat (segmentPunches (\<lambda>d. d) (shiftThresholdHours config) 18 punches) = punches"
    using z18 by (rule segmentPunches_props(1))
  have 4: "\<exists>shifts. processTimesheet render parseDate jsonData config random = Inr shifts
       \<and> (\<forall>s \<in> set shifts. endTime s - startTime s \<le> 18 * 3600000)"
  proof -
    obtain shifts where sh: "processTimesheet render parseDate jsonData config random = Inr shifts"
      using processTimesheet_total by blast
    have "endTime s - startTime s \<le> 18 * 3600000" if "s \<in> set shifts" for s
    proof -
      from processTimesheet_origin [OF sh that] obtain p ps k k' where
        b: "of_int (last ps - hd ps) / (1000 * 60 * 60) \<le> (18 :: rat)"
        and c: "calculateSingleShift p ps config random k = Inr (s, k')"
        by blast
      from b have "last ps - hd ps \<le> 18 * 3600000" unfolding cap_as_int .
      with calc_start_end [OF c] show ?thesis by simp
    qed
    with sh show ?thesis by blast
  qed
  have 5: "\<forall>seg \<in> set (segmentPunches DataHora 12 16 records).
       seg \<noteq> [] \<and> DataHora (last seg) - DataHora (hd seg) \<le> 16 * 3600000"
    using segmentPunches_props(2) [OF z16, of _ DataHora 12 records]
    by (auto simp: segBounded_int)
  have 6: "2 \<le> length (segmentPunches DataHora 12 16 records)"
    if "records \<noteq> []" "16 * 3600000 < DataHora (last records) - DataHora (hd records)"
    using segmentPunches_two_int(2) [of records DataHora] that by simp
  have 7: "concat (segmentPunches DataHora 12 16 records) = records"
    using z16 by (rule segmentPunches_props(1))
  have 8: "\<forall>r \<in> set (calculateDailyWorkers allRecords). saida r - chegada r \<le> 16 * 3600000"
  proof
    fix r
    assume "r \<in> set (calculateDailyWorkers allRecords)"
    from calculateDailyWorkers_origin [OF this] obtain p seg where
      s: "seg \<in> set (segmentPunches DataHora 12 16
                      (sort_key DataHora (filter (\<lambda>x. Pessoa x = p) allRecords)))"
      and ne: "seg \<noteq> []" and r: "r = dailyRecord p seg"
      by blast
    from segmentPunches_props(2) [OF z16 s] have "segBounded DataHora 16 seg" .
    then show "saida r - chegada r \<le> 16 * 3600000"
      unfolding r by (simp add: dailyRecord_fields [OF ne] segBounded_int)
  qed
  from 1 2 3 4 5 6 7 8 show ?thesis by blast
qed

text \<open>
  Punches every 6 hours from 08:00 (each gap within the threshold of 8 hours) and one
  more an hour later: 19 hours in all, cut after 18. In the daily-worker mode, punches at
  08:00, 16:00, 00:00 and 01:00: 17 hours in all, cut after 16.
\<close>

theorem hard_cap_splits_witness:
  "segmentPunches (\<lambda>d. d) (shiftThresholdHours DEFAULT_CONFIG) 18
      [1709193600000, 1709215200000, 1709236800000, 1709258400000, 1709262000000]
     = [[1709193600000, 1709215200000, 1709236800000, 1709258400000], [1709262000000]]
   \<and> (18 * 3600000 :: int) < 1709262000000 - 1709193600000
   \<and> (1709258400000 :: int) - 1709193600000 \<le> 18 * 3600000
   \<and> (1709215200000 :: int) - 1709193600000 \<le> 8 * 3600000
   \<and> map (map DataHora) (segmentPunches DataHora 12 16
        (map (sampleRecord ''Ana'') [1709193600000, 1709222400000, 1709251200000, 1709254800000]))
     = [[1709193600000, 1709222400000, 1709251200000], [1709254800000]]
   \<and> (16 * 3600000 :: int) < 1709254800000 - 1709193600000
   \<and> map saida (calculateDailyWorkers
        (map (sampleRecord ''Ana'') [1709193600000, 1709222400000, 1709251200000, 1709254800000]))
     = [1709251200000, 1709254800000]
   \<and> map chegada (calculateDailyWorkers
        (map (sampleRecord ''Ana'') [1709193600000, 1709222400000, 1709251200000, 1709254800000]))
     = [1709193600000, 1709254800000]"
proof -
  have a: "segmentPunches (\<lambda>d. d) (shiftThresholdHours DEFAULT_CONFIG) 18
      [1709193600000, 1709215200000, 1709236800000, 1709258400000, 1709262000000]
     = [[1709193600000, 1709215200000, 1709236800000, 1709258400000], [1709262000000]]"
    by code_simp
  have b: "map (map DataHora) (segmentPunches DataHora 12 16
        (map (sampleRecord ''Ana'') [1709193600000, 1709222400000, 1709251200000, 1709254800000]))
     = [[1709193600000, 1709222400000, 1709251200000], [1709254800000]]"
    by code_simp
  have c: "map saida (calculateDailyWorkers
        (map (sampleRecord ''Ana'') [1709193600000, 1709222400000, 1709251200000, 1709254800000]))
     = [1709251200000, 1709254800000]"
    by code_simp
  have d: "map chegada (calculateDailyWorkers
        (map (sampleRecord ''Ana'') [1709193600000, 1709222400000, 1709251200000, 1709254800000]))
     = [1709193600000, 1709254800000]"
    by code_simp
  from hard_cap_splits [of DEFAULT_CONFIG
      "[1709193600000, 1709215200000, 1709236800000, 1709258400000, 1709262000000]"
      noRender noParse sampleRows drawHalf
      "map (sampleRecord ''Ana'') [1709193600000, 1709222400000, 1709251200000, 1709254800000]"
      "map (sampleRecord ''Ana'') [1709193600000, 1709222400000, 1709251200000, 1709254800000]"]
    a b c d
  show ?thesis by simp
qed

text \<open>
  C6. Let \<open>a\<close> and \<open>p\<close> be two consecutive punches of a person, after the punches
  \<open>xs\<close> and before the punches \<open>ys\<close>. After \<open>a\<close>, the current shift is the last one
  of the scan of \<open>xs @ [a]\<close>, and it ends with \<open>a\<close>. If the gap from \<open>a\<close> to \<open>p\<close> is at
  most the threshold (so if it is exactly the threshold) and the span from the first punch
  of the current shift to \<open>p\<close> is within the cap of 18 hours, \<open>p\<close> is appended to the
  current shift: the shifts before it stay, and the shift of \<open>a\<close> continues with \<open>p\<close>. If
  the gap is greater than the threshold, the current shift is finalised as it is and the
  next shift starts with \<open>p\<close>.
\<close>

theorem threshold_boundary:
  "last (segmentPunches (\<lambda>d. d) (shiftThresholdHours config) 18 (xs @ [a])) \<noteq> []
 \<and> last (last (segmentPunches (\<lambda>d. d) (shiftThresholdHours config) 18 (xs @ [a]))) = a
 \<and> (of_int (p - a) / (1000 * 60 * 60) \<le> shiftThresholdHours config
      \<and> of_int (p - hd (last (segmentPunches (\<lambda>d. d) (shiftThresholdHours config) 18 (xs @ [a]))))
          / (1000 * 60 * 60) \<le> (18 :: rat) \<longrightarrow>
    (\<exists>more rest. segmentPunches (\<lambda>d. d) (shiftThresholdHours config) 18 (xs @ [a, p] @ ys)
        = butlast (segmentPunches (\<lambda>d. d) (shiftThresholdHours config) 18 (xs @ [a]))
          @ [last (segmentPunches (\<lambda>d. d) (shiftThresholdHours config) 18 (xs @ [a])) @ [p] @ more]
          @ rest))
 \<and> (shiftThresholdHours config < of_int (p - a) / (1000 * 60 * 60) \<longrightarrow>
    (\<exists>more rest. segmentPunches (\<lambda>d. d) (shiftThresholdHours config) 18 (xs @ [a, p] @ ys)
        = segmentPunches (\<lambda>d. d) (shiftThresholdHours config) 18 (xs @ [a])
          @ [[p] @ more] @ rest))"
  using segmentPunches_consecutive(1)
      [where tm = "\<lambda>d. d" and threshold = "shiftThresholdHours config" and cap = 18
         and xs = xs and a = a]
    segmentPunches_consecutive(2)
      [where tm = "\<lambda>d. d" and threshold = "shiftThresholdHours config" and cap = 18
         and xs = xs and a = a and p = p and ys = ys]
    segmentPunches_consecutive(3)
      [where tm = "\<lambda>d. d" and threshold = "shiftThresholdHours config" and cap = 18
         and xs = xs and a = a and p = p and ys = ys]
  by (simp add: not_le)

text \<open>
  Threshold 8 hours. Punches 07:00, 08:00, 16:00, 17:00: the gap of exactly 8 hours keeps
  one shift. With the third punch a millisecond later, the shift is cut before it.
\<close>

theorem threshold_boundary_witness:
  "of_int (1709222400000 - 1709193600000) / (1000 * 60 * 60) = shiftThresholdHours DEFAULT_CONFIG
   \<and> segmentPunches (\<lambda>d. d) (shiftThresholdHours DEFAULT_CONFIG) 18
        [1709190000000, 1709193600000, 1709222400000, 1709226000000]
      = [[1709190000000, 1709193600000, 1709222400000, 1709226000000]]
   \<and> shiftThresholdHours DEFAULT_CONFIG < of_int (1709222400001 - 1709193600000) / (1000 * 60 * 60)
   \<and> segmentPunches (\<lambda>d. d) (shiftThresholdHours DEFAULT_CONFIG) 18
        [1709190000000, 1709193600000, 1709222400001, 1709226000000]
      = [[1709190000000, 1709193600000], [1709222400001, 1709226000000]]
   \<and> segmentPunches (\<lambda>d. d) (shiftThresholdHours DEFAULT_CONFIG) 18
        [1709190000000, 1709193600000]
      = [[1709190000000, 1709193600000]]"
proof -
  have a: "segmentPunches (\<lambda>d. d) (shiftThresholdHours DEFAULT_CONFIG) 18
        [1709190000000, 1709193600000, 1709222400000, 1709226000000]
      = [[1709190000000, 1709193600000, 1709222400000, 1709226000000]]"
    by code_simp
  have b: "segmentPunches (\<lambda>d. d) (shiftThresholdHours DEFAULT_CONFIG) 18
        [1709190000000, 1709193600000, 1709222400001, 1709226000000]
      = [[1709190000000, 1709193600000], [1709222400001, 1709226000000]]"
    by code_simp
  have c: "segmentPunches (\<lambda>d. d) (shiftThresholdHours DEFAULT_CONFIG) 18
        [1709190000000, 1709193600000]
      = [[1709190000000, 1709193600000]]"
    by code_simp
  from threshold_boundary [where config = DEFAULT_CONFIG and xs = "[1709190000000]"
      and a = 1709193600000 and p = 1709222400000 and ys = "[1709226000000]"]
    threshold_boundary [where config = DEFAULT_CONFIG and xs = "[1709190000000]"
      and a = 1709193600000 and p = 1709222400001 and ys = "[1709226000000]"]
    a b c
  show ?thesis by (simp add: DEFAULT_CONFIG_def)
qed

subsection \<open>Normalisation: a Date cell that holds the invalid date\<close>

text \<open>
  C9. The claim fails in the code for a Date cell that holds the invalid date. Such a
  cell is a candidate (the branch \<^verbatim>\<open>val instanceof Date\<close> tests nothing else), it passes
  both filters (its hours, minutes, seconds and year are \<^verbatim>\<open>NaN\<close>, and \<^verbatim>\<open>NaN === 0\<close> and
  \<^verbatim>\<open>NaN < 2020\<close> are false), and it is emitted: the row with the name Ana and that cell
  gives one punch, whose time is the invalid date and whose year is \<^verbatim>\<open>NaN\<close>, not a year
  of at least 2020. The string branch does make the test: a string that the host parses
  to the invalid date is no candidate. (Punches with a valid time do pass the two
  filters: \<open>parseRawData_filtered\<close>.)
\<close>

theorem invalid_date_cell_emitted:
  "candidateDate noParse (CDate InvalidDate) = Some InvalidDate
   \<and> \<not> isMidnight InvalidDate \<and> \<not> isInvalidYear InvalidDate
   \<and> parseRawData noRender noParse invalidDateRows
     = [\<lparr>Pessoa = ''Ana'', DataHora = InvalidDate, Grupo = ''Default'',
         OriginalRow = [(''Nome'', CString ''Ana''), (''Entrada'', CDate InvalidDate)]\<rparr>]
   \<and> dateField getFullYear InvalidDate = None
   \<and> noParse ''31/02/2024 08:00'' = InvalidDate
   \<and> candidateDate noParse (CString ''31/02/2024 08:00'') = None"
proof -
  have "parseRawData noRender noParse invalidDateRows
     = [\<lparr>Pessoa = ''Ana'', DataHora = InvalidDate, Grupo = ''Default'',
         OriginalRow = [(''Nome'', CString ''Ana''), (''Entrada'', CDate InvalidDate)]\<rparr>]"
    by code_simp
  then show ?thesis
    by (simp add: candidateDate_def isMidnight_def isInvalidYear_def dateField_def noParse_def
          isNaN_def getTime_def)
qed

subsection \<open>The daily-worker consolidator: the claim about the break\<close>









end
